theory Spec2Isabelle
  imports Main
begin

section \<open>Python values, exceptions and the iterator protocol\<close>

text \<open>
  The development embeds \<^verbatim>\<open>src/aoc_helper/utils.py\<close>. The module subscripts
  \<^verbatim>\<open>tuple[T, ...]\<close> while its functions are defined, so it loads on Python 3.9 or newer
  only; the semantics of generators used below is the one of those versions.

  Every exception class that the embedded code can raise is a constructor of \<open>error\<close>.
\<close>

datatype error =
    StopIteration | RuntimeError | TypeError | ValueError | IndexError
  | OverflowError | MemoryError

type_synonym 'a result = "error + 'a"

text \<open>
  One call of \<^verbatim>\<open>__next__\<close> on an iterator whose state has type \<open>'s\<close>: it yields
  an element, stops (the iterator protocol's StopIteration), or raises another exception. The
  state after the call is kept in every case.
\<close>

datatype ('a, 's) step = Yield 'a 's | Stop 's | Raise error 's

text \<open>
  \<^verbatim>\<open>list(it)\<close> calls \<^verbatim>\<open>__next__\<close> until the iterator stops. The loop need not end
  (a producer may be unbounded), so not returning is the value \<open>None\<close>. An exception
  other than the stop signal leaves \<^verbatim>\<open>list\<close> and the elements gathered so far are lost.
\<close>

partial_function (option) drain ::
  "('s \<Rightarrow> ('a, 's) step) \<Rightarrow> 'a list \<Rightarrow> 's \<Rightarrow> ('a list result \<times> 's) option" where
  "drain nxt acc s =
     (case nxt s of
        Yield x s' \<Rightarrow> drain nxt (x # acc) s'
      | Stop s' \<Rightarrow> Some (Inr (rev acc), s')
      | Raise e s' \<Rightarrow> Some (Inl e, s'))"

definition py_list :: "('s \<Rightarrow> ('a, 's) step) \<Rightarrow> 's \<Rightarrow> ('a list result \<times> 's) option" where
  "py_list nxt s = drain nxt [] s"

text \<open>
  A Python object as far as the built-ins called by the module tell objects apart:
  a plain value, a list (a sequence: it has \<^verbatim>\<open>__len__\<close>, \<^verbatim>\<open>__getitem__\<close> and
  \<^verbatim>\<open>__reversed__\<close>), an instance of the module's class \<^verbatim>\<open>iter\<close> (it defines
  \<^verbatim>\<open>__iter__\<close> and no other protocol method), and a binary callable such as
  \<^verbatim>\<open>operator.add\<close>. The list carried by \<open>PyIter\<close> holds the elements that the
  wrapped iterator \<^verbatim>\<open>self.it\<close> has not yielded yet.
\<close>

datatype 'a pyobj =
    PyVal 'a
  | PyList "'a list"
  | PyIter "'a list"
  | PyFunc "'a \<Rightarrow> 'a \<Rightarrow> 'a"

text \<open>\<^verbatim>\<open>builtins.iter(obj)\<close>: a TypeError for an object that is not iterable.\<close>

fun builtins_iter :: "'a pyobj \<Rightarrow> 'a list result" where
  "builtins_iter (PyList xs) = Inr xs"
| "builtins_iter (PyIter xs) = Inr xs"
| "builtins_iter (PyVal v) = Inl TypeError"
| "builtins_iter (PyFunc f) = Inl TypeError"

section \<open>The wrapper class over a finite producer\<close>

text \<open>
  A wrapper built from a finite producer is the list of elements that its iterator
  \<^verbatim>\<open>self.it\<close> still has to yield. An exhausted iterator stays exhausted. The methods
  \<^verbatim>\<open>next\<close>, \<^verbatim>\<open>skip\<close>, \<^verbatim>\<open>nth\<close> and \<^verbatim>\<open>take\<close> return their outcome
  together with the wrapper's state after the call; a method that hands the whole wrapper to a
  built-in returns the outcome only.
\<close>

type_synonym 'a iter = "'a list"

text \<open>\<^verbatim>\<open>next(self.it)\<close> of a list iterator, as a step of the iterator protocol.\<close>

definition list_next :: "'a iter \<Rightarrow> ('a, 'a iter) step" where
  "list_next it = (case it of [] \<Rightarrow> Stop [] | x # xs \<Rightarrow> Yield x xs)"

text \<open>\<^verbatim>\<open>iter.next\<close>: \<^verbatim>\<open>return next(self.it)\<close>; the stop signal reaches the caller as
  the exception StopIteration.\<close>

definition iter_next :: "'a iter \<Rightarrow> 'a result \<times> 'a iter" where
  "iter_next it =
     (case list_next it of
        Yield x it' \<Rightarrow> (Inr x, it')
      | Stop it' \<Rightarrow> (Inl StopIteration, it')
      | Raise e it' \<Rightarrow> (Inl e, it'))"

text \<open>\<^verbatim>\<open>iter.skip\<close>: \<^verbatim>\<open>for _ in builtins.range(n): self.next()\<close>, then
  \<^verbatim>\<open>return self\<close>. A range of a negative length is empty.\<close>

fun skip_loop :: "nat \<Rightarrow> 'a iter \<Rightarrow> unit result \<times> 'a iter" where
  "skip_loop 0 it = (Inr (), it)"
| "skip_loop (Suc k) it =
     (case iter_next it of
        (Inl e, it') \<Rightarrow> (Inl e, it')
      | (Inr x, it') \<Rightarrow> skip_loop k it')"

definition iter_skip :: "'a iter \<Rightarrow> int \<Rightarrow> unit result \<times> 'a iter" where
  "iter_skip it n = skip_loop (nat n) it"

text \<open>\<^verbatim>\<open>iter.nth\<close>: \<^verbatim>\<open>self.skip(n); return self.next()\<close>.\<close>

definition iter_nth :: "'a iter \<Rightarrow> int \<Rightarrow> 'a result \<times> 'a iter" where
  "iter_nth it n =
     (case iter_skip it n of
        (Inl e, it') \<Rightarrow> (Inl e, it')
      | (Inr u, it') \<Rightarrow> iter_next it')"

text \<open>
  An exception that leaves the body of a generator: a StopIteration raised inside the body
  is replaced by a RuntimeError (PEP 479, in force from Python 3.7), any other exception
  passes unchanged.
\<close>

definition generator_raise :: "error \<Rightarrow> error" where
  "generator_raise e = (if e = StopIteration then RuntimeError else e)"

text \<open>
  \<^verbatim>\<open>iter.take\<close>: \<^verbatim>\<open>tuple(self.next() for _ in builtins.range(n))\<close>. The calls of
  \<^verbatim>\<open>self.next()\<close> run inside the body of the generator expression, which \<^verbatim>\<open>tuple\<close>
  drives to its end; \<open>take_genexpr k\<close> is the generator with \<open>k\<close> rounds of the range left.
\<close>

fun take_genexpr :: "nat \<Rightarrow> 'a iter \<Rightarrow> 'a list result \<times> 'a iter" where
  "take_genexpr 0 it = (Inr [], it)"
| "take_genexpr (Suc k) it =
     (case iter_next it of
        (Inl e, it') \<Rightarrow> (Inl (generator_raise e), it')
      | (Inr x, it') \<Rightarrow>
          (case take_genexpr k it' of
             (Inl e, it'') \<Rightarrow> (Inl e, it'')
           | (Inr xs, it'') \<Rightarrow> (Inr (x # xs), it'')))"

definition iter_take :: "'a iter \<Rightarrow> int \<Rightarrow> 'a list result \<times> 'a iter" where
  "iter_take it n = take_genexpr (nat n) it"

text \<open>\<^verbatim>\<open>iter.collect\<close>: \<^verbatim>\<open>list(self)\<close>.\<close>

definition iter_collect :: "'a iter \<Rightarrow> ('a list result \<times> 'a iter) option" where
  "iter_collect it = py_list list_next it"

text \<open>
  The default of an optional parameter is the class attribute \<^verbatim>\<open>_SENTINEL\<close>, an object
  that no caller can pass; \<open>Initial a\<close> is a call that gives the parameter. The fold
  function is taken at the type of the first two overloads, from two elements to an element.
\<close>

datatype 'a initial = SENTINEL | Initial 'a

text \<open>
  \<^verbatim>\<open>functools.reduce(function, iterable[, initial])\<close> on an iterator: without an
  initial value the first element starts the fold, and an iterator with no element is a
  TypeError (``reduce() of empty iterable with no initial value'').
\<close>

definition functools_reduce :: "('a \<Rightarrow> 'a \<Rightarrow> 'a) \<Rightarrow> 'a iter \<Rightarrow> 'a initial \<Rightarrow> 'a result" where
  "functools_reduce f it init =
     (case init of
        Initial a \<Rightarrow> Inr (foldl f a it)
      | SENTINEL \<Rightarrow> (case it of [] \<Rightarrow> Inl TypeError | x # xs \<Rightarrow> Inr (foldl f x xs)))"

text \<open>\<^verbatim>\<open>iter.reduce\<close>: the two calls of \<^verbatim>\<open>functools.reduce\<close>, chosen by the test
  \<^verbatim>\<open>initial is self._SENTINEL\<close>.\<close>

definition iter_reduce :: "'a iter \<Rightarrow> ('a \<Rightarrow> 'a \<Rightarrow> 'a) \<Rightarrow> 'a initial \<Rightarrow> 'a result" where
  "iter_reduce self func init =
     (case init of
        SENTINEL \<Rightarrow> functools_reduce func self SENTINEL
      | Initial a \<Rightarrow> functools_reduce func self (Initial a))"

text \<open>
  \<^verbatim>\<open>builtins.min\<close> and \<^verbatim>\<open>builtins.max\<close> of an iterable with a key function
  (\<^verbatim>\<open>key=None\<close> is the identity): a ValueError when there is no element, otherwise the
  first element whose key is least (greatest).
\<close>

definition builtins_min :: "'a pyobj \<Rightarrow> ('a \<Rightarrow> 'k::linorder) \<Rightarrow> 'a result" where
  "builtins_min obj key =
     (case builtins_iter obj of
        Inl e \<Rightarrow> Inl e
      | Inr [] \<Rightarrow> Inl ValueError
      | Inr (x # xs) \<Rightarrow> Inr (foldl (\<lambda>m y. if key y < key m then y else m) x xs))"

definition builtins_max :: "'a pyobj \<Rightarrow> ('a \<Rightarrow> 'k::linorder) \<Rightarrow> 'a result" where
  "builtins_max obj key =
     (case builtins_iter obj of
        Inl e \<Rightarrow> Inl e
      | Inr [] \<Rightarrow> Inl ValueError
      | Inr (x # xs) \<Rightarrow> Inr (foldl (\<lambda>m y. if key y > key m then y else m) x xs))"

text \<open>\<^verbatim>\<open>iter.min\<close> and \<^verbatim>\<open>iter.max\<close>: \<^verbatim>\<open>min(self, key=key)\<close> and
  \<^verbatim>\<open>max(self, key=key)\<close>.\<close>

definition iter_min :: "'a iter \<Rightarrow> ('a \<Rightarrow> 'k::linorder) \<Rightarrow> 'a result" where
  "iter_min self key = builtins_min (PyIter self) key"

definition iter_max :: "'a iter \<Rightarrow> ('a \<Rightarrow> 'k::linorder) \<Rightarrow> 'a result" where
  "iter_max self key = builtins_max (PyIter self) key"

text \<open>
  \<^verbatim>\<open>builtins.sorted(iterable, key, reverse)\<close>: a stable sort of the elements; with
  \<^verbatim>\<open>reverse\<close> the list is reversed, sorted and reversed again, so that equal keys keep
  their order. \<^verbatim>\<open>iter.sorted\<close> wraps the sorted list in a new wrapper.
\<close>

definition builtins_sorted :: "'a pyobj \<Rightarrow> ('a \<Rightarrow> 'k::linorder) \<Rightarrow> bool \<Rightarrow> 'a list result" where
  "builtins_sorted obj key reverse =
     (case builtins_iter obj of
        Inl e \<Rightarrow> Inl e
      | Inr xs \<Rightarrow> Inr (if reverse then rev (sort_key key (rev xs)) else sort_key key xs))"

definition iter_sorted :: "'a iter \<Rightarrow> ('a \<Rightarrow> 'k::linorder) \<Rightarrow> bool \<Rightarrow> 'a iter result" where
  "iter_sorted self key reverse = builtins_sorted (PyIter self) key reverse"

text \<open>
  \<^verbatim>\<open>builtins.reversed(obj)\<close> needs \<^verbatim>\<open>__reversed__\<close>, or \<^verbatim>\<open>__len__\<close> with
  \<^verbatim>\<open>__getitem__\<close>, and is a TypeError (``object is not reversible'') for any other
  object. A list has them; the class \<^verbatim>\<open>iter\<close> defines none of the three, and its base
  \<^verbatim>\<open>typing.Generic\<close> gives none either.
\<close>

fun builtins_reversed :: "'a pyobj \<Rightarrow> 'a list result" where
  "builtins_reversed (PyList xs) = Inr (rev xs)"
| "builtins_reversed (PyIter xs) = Inl TypeError"
| "builtins_reversed (PyVal v) = Inl TypeError"
| "builtins_reversed (PyFunc f) = Inl TypeError"

text \<open>\<^verbatim>\<open>iter.reversed\<close>: \<^verbatim>\<open>type(self)(reversed(self))\<close>, where \<^verbatim>\<open>self\<close> is the
  wrapper itself.\<close>

definition iter_reversed :: "'a iter \<Rightarrow> 'a iter result" where
  "iter_reversed self = builtins_reversed (PyIter self)"

text \<open>
  \<^verbatim>\<open>itertools.accumulate(iterable, func=None, *, initial=None)\<close>, given the list of its
  positional arguments. The first is made an iterator when the object is built; more than two
  positional arguments are a TypeError, since \<^verbatim>\<open>initial\<close> is keyword-only. The result is
  the list of values the object yields: the first element, then each running total. A second
  argument that is not callable fails at the first total it has to compute.
\<close>

fun running :: "('a \<Rightarrow> 'a \<Rightarrow> 'a) \<Rightarrow> 'a \<Rightarrow> 'a list \<Rightarrow> 'a list" where
  "running f acc [] = []"
| "running f acc (x # xs) = f acc x # running f (f acc x) xs"

definition operator_add :: "'a::plus \<Rightarrow> 'a \<Rightarrow> 'a" where
  "operator_add a b = a + b"

fun itertools_accumulate :: "'a::plus pyobj list \<Rightarrow> 'a list result" where
  "itertools_accumulate [] = Inl TypeError"
| "itertools_accumulate [iterable] =
     (case builtins_iter iterable of
        Inl e \<Rightarrow> Inl e
      | Inr [] \<Rightarrow> Inr []
      | Inr (x # xs) \<Rightarrow> Inr (x # running operator_add x xs))"
| "itertools_accumulate [iterable, func] =
     (case builtins_iter iterable of
        Inl e \<Rightarrow> Inl e
      | Inr [] \<Rightarrow> Inr []
      | Inr (x # xs) \<Rightarrow>
          (case func of
             PyFunc f \<Rightarrow> Inr (x # running f x xs)
           | _ \<Rightarrow> if xs = [] then Inr [x] else Inl TypeError))"
| "itertools_accumulate (a # b # c # args) = Inl TypeError"

text \<open>
  \<^verbatim>\<open>iter.accumulate(self, func=operator.add, initial=_SENTINEL)\<close>: it calls
  \<^verbatim>\<open>itertools.accumulate(func, self)\<close>, or
  \<^verbatim>\<open>itertools.accumulate(func, self, initial)\<close> when an initial value is given.
\<close>

definition iter_accumulate :: "'a::plus iter \<Rightarrow> ('a \<Rightarrow> 'a \<Rightarrow> 'a) \<Rightarrow> 'a initial \<Rightarrow> 'a iter result" where
  "iter_accumulate self func init =
     (case init of
        SENTINEL \<Rightarrow> itertools_accumulate [PyFunc func, PyIter self]
      | Initial a \<Rightarrow> itertools_accumulate [PyFunc func, PyIter self, PyVal a])"

section \<open>Chunking\<close>

text \<open>
  The interpreter is a 64-bit build: the length of a list is a signed 64-bit integer, at most
  \<open>PY_SSIZE_T_MAX\<close>.
\<close>

definition PY_SSIZE_T_MAX :: int where
  "PY_SSIZE_T_MAX = 2 ^ 63 - 1"

text \<open>
  \<^verbatim>\<open>[builtins.iter(iterable)] * chunk_size\<close> is a list of \<^verbatim>\<open>chunk_size\<close> references
  to one and the same iterator; \<open>list_repeat\<close> gives its length. The factor is first made
  an index-sized integer, an OverflowError when it does not fit. A factor that is zero or
  negative gives the empty list. The list, and the argument tuple that the call
  \<^verbatim>\<open>zip(*...)\<close> makes of it, hold one reference of 8 bytes for each argument: beyond
  \<open>PY_SSIZE_T_MAX div 8\<close> references the allocator refuses the size, and beyond the
  references that the machine has memory for, the number \<open>capacity\<close>, the allocation
  fails; both are a MemoryError. All of this happens in the call, before any element is pulled.
\<close>

definition list_repeat :: "nat \<Rightarrow> int \<Rightarrow> nat result" where
  "list_repeat capacity n =
     (if n < - PY_SSIZE_T_MAX - 1 \<or> PY_SSIZE_T_MAX < n then Inl OverflowError
      else if n \<le> 0 then Inr 0
      else if PY_SSIZE_T_MAX div 8 < n \<or> int capacity < n then Inl MemoryError
      else Inr (nat n))"

text \<open>
  \<^verbatim>\<open>zip\<close> receives the references as its arguments. The zip object is therefore its
  number of arguments and the state of the one iterator they all share.
\<close>

record 'a zip_obj =
  tuplesize :: nat
  zsrc :: "'a iter"

text \<open>One round of \<^verbatim>\<open>zip\<close>: an element from each argument in turn, all from the shared
  iterator; the round is abandoned at the first argument that has none.\<close>

fun zip_pull :: "nat \<Rightarrow> 'a iter \<Rightarrow> 'a list option \<times> 'a iter" where
  "zip_pull 0 it = (Some [], it)"
| "zip_pull (Suc k) it =
     (case iter_next it of
        (Inl e, it') \<Rightarrow> (None, it')
      | (Inr x, it') \<Rightarrow>
          (case zip_pull k it' of
             (None, it'') \<Rightarrow> (None, it'')
           | (Some xs, it'') \<Rightarrow> (Some (x # xs), it'')))"

text \<open>\<^verbatim>\<open>zip.__next__\<close>: a zip of no argument stops at once.\<close>

definition zip_next :: "'a zip_obj \<Rightarrow> ('a list, 'a zip_obj) step" where
  "zip_next z =
     (if tuplesize z = 0 then Stop z
      else case zip_pull (tuplesize z) (zsrc z) of
             (None, it') \<Rightarrow> Stop (z\<lparr>zsrc := it'\<rparr>)
           | (Some xs, it') \<Rightarrow> Yield xs (z\<lparr>zsrc := it'\<rparr>))"

text \<open>The free function \<^verbatim>\<open>chunk\<close>, and the method \<^verbatim>\<open>iter.chunk\<close>, which passes the
  wrapper itself; \<^verbatim>\<open>builtins.iter\<close> of a wrapper is its own iterator \<^verbatim>\<open>self.it\<close>.\<close>

definition chunk :: "nat \<Rightarrow> 'a iter \<Rightarrow> int \<Rightarrow> 'a zip_obj result" where
  "chunk capacity iterable chunk_size =
     (case list_repeat capacity chunk_size of
        Inl e \<Rightarrow> Inl e
      | Inr k \<Rightarrow> Inr \<lparr>tuplesize = k, zsrc = iterable\<rparr>)"

definition iter_chunk :: "nat \<Rightarrow> 'a iter \<Rightarrow> int \<Rightarrow> 'a zip_obj result" where
  "iter_chunk capacity self n = chunk capacity self n"

text \<open>
  \<^verbatim>\<open>itertools.zip_longest\<close> over references to one iterator: \<open>ittuple\<close> tells for each
  argument whether it is still held (an argument found exhausted is dropped and gives the
  fill value from then on), \<open>numactive\<close> counts the arguments still held.
\<close>

record 'a zip_longest_obj =
  ittuple :: "bool list"
  numactive :: nat
  fillvalue :: 'a
  zlsrc :: "'a iter"

text \<open>One round over the arguments. The round, and the whole object, ends without a tuple
  when the last held argument is found exhausted.\<close>

fun zip_longest_pull ::
  "'a \<Rightarrow> bool list \<Rightarrow> nat \<Rightarrow> 'a iter \<Rightarrow> ('a list \<times> bool list \<times> nat) option \<times> 'a iter" where
  "zip_longest_pull fv [] na it = (Some ([], [], na), it)"
| "zip_longest_pull fv (held # its) na it =
     (if \<not> held then
        (case zip_longest_pull fv its na it of
           (None, it') \<Rightarrow> (None, it')
         | (Some (vs, its', na'), it') \<Rightarrow> (Some (fv # vs, False # its', na'), it'))
      else
        (case iter_next it of
           (Inr x, it') \<Rightarrow>
             (case zip_longest_pull fv its na it' of
                (None, it'') \<Rightarrow> (None, it'')
              | (Some (vs, its', na'), it'') \<Rightarrow> (Some (x # vs, True # its', na'), it''))
         | (Inl e, it') \<Rightarrow>
             (if na - 1 = 0 then (None, it')
              else case zip_longest_pull fv its (na - 1) it' of
                     (None, it'') \<Rightarrow> (None, it'')
                   | (Some (vs, its', na'), it'') \<Rightarrow> (Some (fv # vs, False # its', na'), it''))))"

definition zip_longest_next :: "'a zip_longest_obj \<Rightarrow> ('a list, 'a zip_longest_obj) step" where
  "zip_longest_next z =
     (if length (ittuple z) = 0 then Stop z
      else if numactive z = 0 then Stop z
      else case zip_longest_pull (fillvalue z) (ittuple z) (numactive z) (zlsrc z) of
             (None, it') \<Rightarrow> Stop (z\<lparr>numactive := 0, zlsrc := it'\<rparr>)
           | (Some (vs, its', na'), it') \<Rightarrow>
               Yield vs (z\<lparr>ittuple := its', numactive := na', zlsrc := it'\<rparr>))"

text \<open>The free function \<^verbatim>\<open>chunk_default\<close> and the method \<^verbatim>\<open>iter.chunk_default\<close>.\<close>

definition chunk_default ::
  "nat \<Rightarrow> 'a iter \<Rightarrow> int \<Rightarrow> 'a \<Rightarrow> 'a zip_longest_obj result" where
  "chunk_default capacity iterable chunk_size dflt =
     (case list_repeat capacity chunk_size of
        Inl e \<Rightarrow> Inl e
      | Inr k \<Rightarrow>
          Inr \<lparr>ittuple = replicate k True, numactive = k, fillvalue = dflt, zlsrc = iterable\<rparr>)"

definition iter_chunk_default ::
  "nat \<Rightarrow> 'a iter \<Rightarrow> int \<Rightarrow> 'a \<Rightarrow> 'a zip_longest_obj result" where
  "iter_chunk_default capacity self n dflt = chunk_default capacity self n dflt"

section \<open>Sliding windows\<close>

text \<open>
  \<^verbatim>\<open>iter._window\<close> is a generator function: calling it runs none of its body. The
  generator object is either new, or suspended at one of its two \<^verbatim>\<open>yield\<close>s (both
  resume into the loop \<^verbatim>\<open>for el in self\<close>), or finished. Its frame holds the deque
  \<^verbatim>\<open>elements\<close> and the wrapper \<^verbatim>\<open>self\<close> it pulls from.
\<close>

datatype gen_pc = GenCreated | GenSuspended | GenFinished

record 'a window_gen =
  pc :: gen_pc
  window_size :: int
  elements :: "'a list"
  wsrc :: "'a iter"

text \<open>
  The first loop, \<^verbatim>\<open>for _ in range(window_size)\<close> (the module's own \<^verbatim>\<open>range\<close>, a
  wrapper over \<^verbatim>\<open>builtins.range\<close>): each round appends \<^verbatim>\<open>self.next()\<close> to the deque;
  a StopIteration is caught and the generator returns.
\<close>

fun window_seed :: "nat \<Rightarrow> 'a list \<Rightarrow> 'a iter \<Rightarrow> 'a list option \<times> 'a iter" where
  "window_seed 0 els it = (Some els, it)"
| "window_seed (Suc k) els it =
     (case iter_next it of
        (Inl e, it') \<Rightarrow> (None, it')
      | (Inr x, it') \<Rightarrow> window_seed k (els @ [x]) it')"

text \<open>Resuming the generator. \<^verbatim>\<open>popleft\<close> of an empty deque is an IndexError.\<close>

definition window_resume :: "'a window_gen \<Rightarrow> ('a list, 'a window_gen) step" where
  "window_resume g =
     (case pc g of
        GenFinished \<Rightarrow> Stop g
      | GenCreated \<Rightarrow>
          (case window_seed (nat (window_size g)) (elements g) (wsrc g) of
             (None, it') \<Rightarrow> Stop (g\<lparr>pc := GenFinished, wsrc := it'\<rparr>)
           | (Some els, it') \<Rightarrow> Yield els (g\<lparr>pc := GenSuspended, elements := els, wsrc := it'\<rparr>))
      | GenSuspended \<Rightarrow>
          (case list_next (wsrc g) of
             Stop it' \<Rightarrow> Stop (g\<lparr>pc := GenFinished, wsrc := it'\<rparr>)
           | Raise e it' \<Rightarrow> Raise e (g\<lparr>pc := GenFinished, wsrc := it'\<rparr>)
           | Yield el it' \<Rightarrow>
               (case elements g of
                  [] \<Rightarrow> Raise IndexError (g\<lparr>pc := GenFinished, wsrc := it'\<rparr>)
                | old # els \<Rightarrow>
                    Yield (els @ [el]) (g\<lparr>elements := els @ [el], wsrc := it'\<rparr>))))"

text \<open>\<^verbatim>\<open>self._window(window_size)\<close> and \<^verbatim>\<open>iter.window\<close>, which wraps the new
  generator.\<close>

definition iter_window_gen :: "'a iter \<Rightarrow> int \<Rightarrow> 'a window_gen" where
  "iter_window_gen self ws = \<lparr>pc = GenCreated, window_size = ws, elements = [], wsrc = self\<rparr>"

definition iter_window :: "'a iter \<Rightarrow> int \<Rightarrow> 'a window_gen result" where
  "iter_window self ws = Inr (iter_window_gen self ws)"

section \<open>Splitting\<close>

text \<open>
  \<^verbatim>\<open>itertools.tee(iterable, n)\<close>, as the library documents it: one deque per branch and
  the iterator they share. A branch whose deque is empty fetches the next value and appends
  it to every deque, then pops its own deque from the left. A negative \<open>n\<close> is a
  ValueError.
\<close>

record 'a tee_state =
  tee_it :: "'a iter"
  deques :: "'a list list"

definition itertools_tee :: "'a iter \<Rightarrow> int \<Rightarrow> 'a tee_state result" where
  "itertools_tee it n =
     (if n < 0 then Inl ValueError
      else Inr \<lparr>tee_it = it, deques = replicate (nat n) []\<rparr>)"

text \<open>\<^verbatim>\<open>__next__\<close> of branch \<open>i\<close>. There is no branch beyond the deques; asking one
  gives nothing and changes nothing.\<close>

definition tee_fetch :: "nat \<Rightarrow> 'a tee_state \<Rightarrow> ('a, 'a tee_state) step + 'a tee_state" where
  "tee_fetch i st =
     (if deques st ! i = [] then
        (case list_next (tee_it st) of
           Stop it' \<Rightarrow> Inl (Stop (st\<lparr>tee_it := it'\<rparr>))
         | Raise e it' \<Rightarrow> Inl (Raise e (st\<lparr>tee_it := it'\<rparr>))
         | Yield newval it' \<Rightarrow>
             Inr (st\<lparr>tee_it := it', deques := map (\<lambda>d. d @ [newval]) (deques st)\<rparr>))
      else Inr st)"

definition tee_next :: "nat \<Rightarrow> 'a tee_state \<Rightarrow> ('a, 'a tee_state) step" where
  "tee_next i st =
     (if \<not> i < length (deques st) then Stop st
      else case tee_fetch i st of
             Inl stopped \<Rightarrow> stopped
           | Inr st' \<Rightarrow>
               (case deques st' ! i of
                  [] \<Rightarrow> Raise IndexError st'
                | v # d \<Rightarrow> Yield v (st'\<lparr>deques := (deques st')[i := d]\<rparr>)))"

text \<open>\<^verbatim>\<open>iter.tee\<close>: every branch of \<^verbatim>\<open>itertools.tee(self, n)\<close> in a wrapper of
  its own.\<close>

definition iter_tee :: "'a iter \<Rightarrow> int \<Rightarrow> 'a tee_state result" where
  "iter_tee self n = itertools_tee self n"

text \<open>
  A caller that drives the branches in any order it likes: the schedule names the branch
  whose \<^verbatim>\<open>__next__\<close> is called next. The outcome is the list of the values obtained,
  each with the branch that obtained it.
\<close>

fun drive_branches :: "nat list \<Rightarrow> 'a tee_state \<Rightarrow> (nat \<times> 'a) list \<times> 'a tee_state" where
  "drive_branches [] st = ([], st)"
| "drive_branches (i # sched) st =
     (case tee_next i st of
        Yield v st' \<Rightarrow>
          (case drive_branches sched st' of (out, st'') \<Rightarrow> ((i, v) # out, st''))
      | Stop st' \<Rightarrow> drive_branches sched st'
      | Raise e st' \<Rightarrow> drive_branches sched st')"

definition branch_values :: "nat \<Rightarrow> (nat \<times> 'a) list \<Rightarrow> 'a list" where
  "branch_values i out = map snd (filter (\<lambda>p. fst p = i) out)"

section \<open>Calls followed by a collection\<close>

text \<open>
  \<^verbatim>\<open>self.chunk(n).collect()\<close>, \<^verbatim>\<open>self.chunk_default(n, default).collect()\<close> and
  \<^verbatim>\<open>self.window(n).collect()\<close>: the new wrapper's iterator is the object that the
  method built, and \<^verbatim>\<open>collect\<close> is \<^verbatim>\<open>list\<close> of it. An error of the call itself
  would come before any collection.
\<close>

definition iter_chunk_collect :: "nat \<Rightarrow> 'a iter \<Rightarrow> int \<Rightarrow> 'a list list result option" where
  "iter_chunk_collect capacity self n =
     (case iter_chunk capacity self n of
        Inl e \<Rightarrow> Some (Inl e)
      | Inr z \<Rightarrow> map_option fst (py_list zip_next z))"

definition iter_chunk_default_collect ::
  "nat \<Rightarrow> 'a iter \<Rightarrow> int \<Rightarrow> 'a \<Rightarrow> 'a list list result option" where
  "iter_chunk_default_collect capacity self n dflt =
     (case iter_chunk_default capacity self n dflt of
        Inl e \<Rightarrow> Some (Inl e)
      | Inr z \<Rightarrow> map_option fst (py_list zip_longest_next z))"

definition iter_window_collect :: "'a iter \<Rightarrow> int \<Rightarrow> 'a list list result option" where
  "iter_window_collect self n =
     (case iter_window self n of
        Inl e \<Rightarrow> Some (Inl e)
      | Inr g \<Rightarrow> map_option fst (py_list window_resume g))"

text \<open>The exception that an outcome carries, if it carries one.\<close>

fun failure_of :: "'a result \<Rightarrow> error option" where
  "failure_of (Inl e) = Some e"
| "failure_of (Inr v) = None"

section \<open>Results\<close>

subsection \<open>The driver loop\<close>

lemma drain_Yield: "nxt s = Yield x s' \<Longrightarrow> drain nxt acc s = drain nxt (x # acc) s'"
  by (subst drain.simps) simp

lemma drain_Stop: "nxt s = Stop s' \<Longrightarrow> drain nxt acc s = Some (Inr (rev acc), s')"
  by (subst drain.simps) simp

lemma drain_Raise: "nxt s = Raise e s' \<Longrightarrow> drain nxt acc s = Some (Inl e, s')"
  by (subst drain.simps) simp

lemma drain_list_next: "drain list_next acc it = Some (Inr (rev acc @ it), [])"
proof (induction it arbitrary: acc)
  case Nil
  show ?case by (simp add: drain_Stop list_next_def)
next
  case (Cons x xs)
  have "drain list_next acc (x # xs) = drain list_next (x # acc) xs"
    by (rule drain_Yield) (simp add: list_next_def)
  then show ?case by (simp add: Cons.IH)
qed

lemma iter_collect_eq: "iter_collect it = Some (Inr it, [])"
  by (simp add: iter_collect_def py_list_def drain_list_next)

subsection \<open>Underflow of skip and take\<close>

lemma iter_next_Nil: "iter_next [] = (Inl StopIteration, [])"
  by (simp add: iter_next_def list_next_def)

lemma iter_next_Cons: "iter_next (x # xs) = (Inr x, xs)"
  by (simp add: iter_next_def list_next_def)

lemma skip_loop_enough: "k \<le> length it \<Longrightarrow> skip_loop k it = (Inr (), drop k it)"
  by (induction k arbitrary: it) (auto simp: iter_next_Cons Suc_le_length_iff)

lemma skip_loop_short: "length it < k \<Longrightarrow> skip_loop k it = (Inl StopIteration, [])"
proof (induction k arbitrary: it)
  case 0
  then show ?case by simp
next
  case (Suc k)
  show ?case
  proof (cases it)
    case Nil
    then show ?thesis by (simp add: iter_next_Nil)
  next
    case (Cons x xs)
    with Suc.prems have "length xs < k" by simp
    then show ?thesis using Cons by (simp add: iter_next_Cons Suc.IH)
  qed
qed

lemma take_genexpr_enough:
  "k \<le> length it \<Longrightarrow> take_genexpr k it = (Inr (take k it), drop k it)"
  by (induction k arbitrary: it) (auto simp: iter_next_Cons Suc_le_length_iff)

lemma take_genexpr_short: "length it < k \<Longrightarrow> take_genexpr k it = (Inl RuntimeError, [])"
proof (induction k arbitrary: it)
  case 0
  then show ?case by simp
next
  case (Suc k)
  show ?case
  proof (cases it)
    case Nil
    then show ?thesis by (simp add: iter_next_Nil generator_raise_def)
  next
    case (Cons x xs)
    with Suc.prems have "length xs < k" by simp
    then show ?thesis using Cons by (simp add: iter_next_Cons Suc.IH)
  qed
qed

text \<open>
  C10. A failed take or skip is not atomic: on a wrapper with \<open>m\<close> remaining elements and
  \<open>n > m\<close>, both \<open>take(n)\<close> and \<open>skip(n)\<close> fail, and the wrapper is exhausted afterwards:
  the \<open>m\<close> elements pulled before the failure are gone, a following \<open>next\<close> finds nothing
  and a following \<open>collect\<close> returns the empty list.
\<close>

theorem failed_take_skip_exhausts:
  assumes "int (length it) < n"
  shows "fst (iter_take it n) = Inl RuntimeError \<and> snd (iter_take it n) = []
       \<and> fst (iter_skip it n) = Inl StopIteration \<and> snd (iter_skip it n) = []
       \<and> iter_next (snd (iter_take it n)) = (Inl StopIteration, [])
       \<and> iter_next (snd (iter_skip it n)) = (Inl StopIteration, [])
       \<and> iter_collect (snd (iter_take it n)) = Some (Inr [], [])
       \<and> iter_collect (snd (iter_skip it n)) = Some (Inr [], [])"
proof -
  from assms have short: "length it < nat n" by linarith
  have t: "iter_take it n = (Inl RuntimeError, [])"
    unfolding iter_take_def by (rule take_genexpr_short [OF short])
  have s: "iter_skip it n = (Inl StopIteration, [])"
    unfolding iter_skip_def by (rule skip_loop_short [OF short])
  show ?thesis by (simp add: t s iter_next_Nil iter_collect_eq)
qed

theorem failed_take_skip_exhausts_witness:
  "int (length [1, 2 :: int]) < 3
   \<and> iter_take [1, 2 :: int] 3 = (Inl RuntimeError, [])
   \<and> iter_skip [1, 2 :: int] 3 = (Inl StopIteration, [])"
  using failed_take_skip_exhausts [of "[1, 2 :: int]" 3]
  by (simp add: prod_eq_iff)

subsection \<open>Chunks\<close>

lemma zip_pull_enough: "k \<le> length it \<Longrightarrow> zip_pull k it = (Some (take k it), drop k it)"
  by (induction k arbitrary: it) (auto simp: iter_next_Cons Suc_le_length_iff)

lemma zip_pull_short: "length it < k \<Longrightarrow> zip_pull k it = (None, [])"
proof (induction k arbitrary: it)
  case 0
  then show ?case by simp
next
  case (Suc k)
  show ?case
  proof (cases it)
    case Nil
    then show ?thesis by (simp add: iter_next_Nil)
  next
    case (Cons x xs)
    with Suc.prems have "length xs < k" by simp
    then show ?thesis using Cons by (simp add: iter_next_Cons Suc.IH)
  qed
qed

lemma zip_next_enough:
  "0 < n \<Longrightarrow> n \<le> length it \<Longrightarrow>
   zip_next \<lparr>tuplesize = n, zsrc = it\<rparr> = Yield (take n it) \<lparr>tuplesize = n, zsrc = drop n it\<rparr>"
  by (simp add: zip_next_def zip_pull_enough)

lemma zip_next_short:
  "length it < n \<Longrightarrow> zip_next \<lparr>tuplesize = n, zsrc = it\<rparr> = Stop \<lparr>tuplesize = n, zsrc = []\<rparr>"
  by (simp add: zip_next_def zip_pull_short)

lemma drain_zip:
  assumes "0 < n"
  shows "\<exists>gs. drain zip_next acc \<lparr>tuplesize = n, zsrc = it\<rparr>
             = Some (Inr (rev acc @ gs), \<lparr>tuplesize = n, zsrc = []\<rparr>)
           \<and> length gs = length it div n
           \<and> (\<forall>g \<in> set gs. length g = n)
           \<and> concat gs = take (n * (length it div n)) it"
proof (induction it arbitrary: acc rule: length_induct)
  case (1 it)
  show ?case
  proof (cases "length it < n")
    case True
    have "drain zip_next acc \<lparr>tuplesize = n, zsrc = it\<rparr>
            = Some (Inr (rev acc), \<lparr>tuplesize = n, zsrc = []\<rparr>)"
      by (rule drain_Stop) (rule zip_next_short [OF True])
    with True show ?thesis by simp
  next
    case False
    then have le: "n \<le> length it" by simp
    have shorter: "length (drop n it) < length it"
      using assms le by simp
    from 1 [rule_format, OF shorter, of "take n it # acc"]
    obtain gs where
      run: "drain zip_next (take n it # acc) \<lparr>tuplesize = n, zsrc = drop n it\<rparr>
              = Some (Inr (rev (take n it # acc) @ gs), \<lparr>tuplesize = n, zsrc = []\<rparr>)"
      and len: "length gs = length (drop n it) div n"
      and sz: "\<forall>g \<in> set gs. length g = n"
      and cat: "concat gs = take (n * (length (drop n it) div n)) (drop n it)"
      by blast
    have step: "drain zip_next acc \<lparr>tuplesize = n, zsrc = it\<rparr>
                  = drain zip_next (take n it # acc) \<lparr>tuplesize = n, zsrc = drop n it\<rparr>"
      by (rule drain_Yield) (rule zip_next_enough [OF assms le])
    have d: "length it div n = Suc ((length it - n) div n)"
      using assms le by (simp add: le_div_geq)
    have "take n it @ take (n * ((length it - n) div n)) (drop n it)
            = take (n + n * ((length it - n) div n)) it"
      by (simp add: take_add)
    then have cat': "concat (take n it # gs) = take (n * (length it div n)) it"
      using cat d by simp
    have "drain zip_next acc \<lparr>tuplesize = n, zsrc = it\<rparr>
            = Some (Inr (rev acc @ (take n it # gs)), \<lparr>tuplesize = n, zsrc = []\<rparr>)"
      using step run by simp
    moreover have "length (take n it # gs) = length it div n"
      using len d by simp
    moreover have "\<forall>g \<in> set (take n it # gs). length g = n"
      using sz le by simp
    ultimately show ?thesis using cat' by blast
  qed
qed

lemma list_repeat_fits:
  "1 \<le> n \<Longrightarrow> n \<le> PY_SSIZE_T_MAX div 8 \<Longrightarrow> n \<le> int capacity \<Longrightarrow>
   list_repeat capacity n = Inr (nat n)"
  by (simp add: list_repeat_def PY_SSIZE_T_MAX_def)

lemma list_repeat_nonpositive:
  "- PY_SSIZE_T_MAX - 1 \<le> n \<Longrightarrow> n \<le> 0 \<Longrightarrow> list_repeat capacity n = Inr 0"
  by (simp add: list_repeat_def PY_SSIZE_T_MAX_def)

lemma list_repeat_overflow:
  "n < - PY_SSIZE_T_MAX - 1 \<or> PY_SSIZE_T_MAX < n \<Longrightarrow> list_repeat capacity n = Inl OverflowError"
  by (simp add: list_repeat_def)

lemma list_repeat_refused:
  "PY_SSIZE_T_MAX div 8 < n \<Longrightarrow> n \<le> PY_SSIZE_T_MAX \<Longrightarrow> list_repeat capacity n = Inl MemoryError"
  by (simp add: list_repeat_def PY_SSIZE_T_MAX_def)

lemma zip_collect_example:
  "py_list zip_next \<lparr>tuplesize = 2, zsrc = [1, 2, 3, 4, 5 :: int]\<rparr>
     = Some (Inr [[1, 2], [3, 4]], \<lparr>tuplesize = 2, zsrc = []\<rparr>)"
proof -
  have a: "zip_next \<lparr>tuplesize = 2, zsrc = [1, 2, 3, 4, 5 :: int]\<rparr>
             = Yield [1, 2] \<lparr>tuplesize = 2, zsrc = [3, 4, 5]\<rparr>"
    by (simp add: zip_next_def numeral_2_eq_2 iter_next_Cons)
  have b: "zip_next \<lparr>tuplesize = 2, zsrc = [3, 4, 5 :: int]\<rparr>
             = Yield [3, 4] \<lparr>tuplesize = 2, zsrc = [5]\<rparr>"
    by (simp add: zip_next_def numeral_2_eq_2 iter_next_Cons)
  have c: "zip_next \<lparr>tuplesize = 2, zsrc = [5 :: int]\<rparr> = Stop \<lparr>tuplesize = 2, zsrc = []\<rparr>"
    by (simp add: zip_next_def numeral_2_eq_2 iter_next_Cons iter_next_Nil)
  show ?thesis
    by (simp add: py_list_def drain_Yield [where nxt = zip_next, OF a]
        drain_Yield [where nxt = zip_next, OF b] drain_Stop [where nxt = zip_next, OF c])
qed

text \<open>
  C5, as stated, holds for every size \<open>n \<ge> 1\<close>. The size is the length of a list before
  it is the size of a chunk: with the size \<open>2^63\<close>, which is no index-sized integer, the
  call fails with an OverflowError, and with the size \<open>2^63 - 1\<close> with a MemoryError, where
  the claim has the collection return no group and no error.
\<close>

theorem chunk_size_counterexample:
  "iter_chunk_collect 1000 [1, 2, 3 :: int] (2 ^ 63) = Some (Inl OverflowError)
   \<and> iter_chunk_collect 1000 [1, 2, 3 :: int] (2 ^ 63 - 1) = Some (Inl MemoryError)"
proof -
  have "list_repeat 1000 (2 ^ 63) = Inl OverflowError"
    by (rule list_repeat_overflow) (simp add: PY_SSIZE_T_MAX_def)
  moreover have "list_repeat 1000 (2 ^ 63 - 1) = Inl MemoryError"
    by (rule list_repeat_refused) (simp_all add: PY_SSIZE_T_MAX_def)
  ultimately show ?thesis
    by (simp add: iter_chunk_collect_def iter_chunk_def chunk_def)
qed

text \<open>
  C5, amended. For every finite producer \<open>P\<close> and every size \<open>n \<ge> 1\<close> of which the
  interpreter can build the list of \<open>n\<close> references (\<open>n\<close> at most \<open>PY_SSIZE_T_MAX div 8\<close>
  and within the memory of the machine), collecting \<open>chunk(P, n)\<close> returns
  \<open>length P div n\<close> groups, each of \<open>n\<close> elements, whose concatenation is the first
  \<open>n * (length P div n)\<close> elements of \<open>P\<close> in order: an incomplete last group is dropped.
  In particular \<open>chunk([1,2,3,4,5], 2)\<close> collects to \<open>[(1,2),(3,4)]\<close>. A size above
  \<open>PY_SSIZE_T_MAX\<close> is an OverflowError of the call.
\<close>

theorem chunk_groups:
  "(1 \<le> n \<and> n \<le> PY_SSIZE_T_MAX div 8 \<and> n \<le> int capacity \<longrightarrow>
      (\<exists>gs. iter_chunk_collect capacity P n = Some (Inr gs)
          \<and> length gs = length P div nat n
          \<and> (\<forall>g \<in> set gs. length g = nat n)
          \<and> concat gs = take (nat n * (length P div nat n)) P))
   \<and> (2 \<le> capacity \<longrightarrow>
        iter_chunk_collect capacity [1, 2, 3, 4, 5 :: int] 2 = Some (Inr [[1, 2], [3, 4]]))
   \<and> (PY_SSIZE_T_MAX < n \<longrightarrow> iter_chunk_collect capacity P n = Some (Inl OverflowError))"
proof (intro conjI impI)
  assume h: "1 \<le> n \<and> n \<le> PY_SSIZE_T_MAX div 8 \<and> n \<le> int capacity"
  then have pos: "0 < nat n" by simp
  from h have fits: "list_repeat capacity n = Inr (nat n)"
    by (simp add: list_repeat_fits)
  from drain_zip [OF pos, of "[]" P] show "\<exists>gs. iter_chunk_collect capacity P n = Some (Inr gs)
          \<and> length gs = length P div nat n
          \<and> (\<forall>g \<in> set gs. length g = nat n)
          \<and> concat gs = take (nat n * (length P div nat n)) P"
    by (auto simp: iter_chunk_collect_def iter_chunk_def chunk_def fits py_list_def)
next
  assume "2 \<le> capacity"
  then have "list_repeat capacity 2 = Inr 2"
    using list_repeat_fits [of 2 capacity] by (simp add: PY_SSIZE_T_MAX_def)
  then show "iter_chunk_collect capacity [1, 2, 3, 4, 5 :: int] 2 = Some (Inr [[1, 2], [3, 4]])"
    by (simp add: iter_chunk_collect_def iter_chunk_def chunk_def zip_collect_example)
next
  assume "PY_SSIZE_T_MAX < n"
  then have "list_repeat capacity n = Inl OverflowError"
    by (simp add: list_repeat_overflow)
  then show "iter_chunk_collect capacity P n = Some (Inl OverflowError)"
    by (simp add: iter_chunk_collect_def iter_chunk_def chunk_def)
qed

theorem chunk_groups_witness:
  "(1::int) \<le> 3 \<and> 3 \<le> PY_SSIZE_T_MAX div 8 \<and> (3::int) \<le> int 1000
   \<and> (\<exists>gs. iter_chunk_collect 1000 [1, 2, 3, 4, 5, 6, 7 :: int] 3 = Some (Inr gs)
          \<and> length gs = 2
          \<and> (\<forall>g \<in> set gs. length g = 3)
          \<and> concat gs = [1, 2, 3, 4, 5, 6])
   \<and> (2::nat) \<le> 1000
   \<and> iter_chunk_collect 1000 [1, 2, 3, 4, 5 :: int] 2 = Some (Inr [[1, 2], [3, 4]])
   \<and> PY_SSIZE_T_MAX < 2 ^ 64
   \<and> iter_chunk_collect 1000 [1, 2, 3, 4, 5, 6, 7 :: int] (2 ^ 64) = Some (Inl OverflowError)"
proof -
  let ?P = "[1, 2, 3, 4, 5, 6, 7 :: int]"
  have h: "(1::int) \<le> 3 \<and> 3 \<le> PY_SSIZE_T_MAX div 8 \<and> (3::int) \<le> int 1000"
    by (simp add: PY_SSIZE_T_MAX_def)
  have c: "(2::nat) \<le> 1000" by simp
  have o: "PY_SSIZE_T_MAX < 2 ^ 64" by (simp add: PY_SSIZE_T_MAX_def)
  have n: "nat 3 = 3" by simp
  have l: "length ?P div 3 = 2" by simp
  have t: "take (3 * 2) ?P = [1, 2, 3, 4, 5, 6]" by simp
  from chunk_groups [of 3 1000 ?P] h c
  have "(\<exists>gs. iter_chunk_collect 1000 ?P 3 = Some (Inr gs)
          \<and> length gs = length ?P div nat 3
          \<and> (\<forall>g \<in> set gs. length g = nat 3)
          \<and> concat gs = take (nat 3 * (length ?P div nat 3)) ?P)
     \<and> iter_chunk_collect 1000 [1, 2, 3, 4, 5 :: int] 2 = Some (Inr [[1, 2], [3, 4]])"
    by blast
  moreover from chunk_groups [of "2 ^ 64" 1000 ?P] o
  have "iter_chunk_collect 1000 ?P (2 ^ 64) = Some (Inl OverflowError)"
    by blast
  ultimately show ?thesis unfolding n l t using h c o by blast
qed

subsection \<open>Sliding windows\<close>

lemma window_seed_enough:
  "k \<le> length it \<Longrightarrow> window_seed k els it = (Some (els @ take k it), drop k it)"
proof (induction k arbitrary: els it)
  case 0
  then show ?case by simp
next
  case (Suc k)
  then obtain x xs where it: "it = x # xs" and "k \<le> length xs"
    by (auto simp: Suc_le_length_iff)
  then show ?case by (simp add: iter_next_Cons Suc.IH)
qed

lemma window_seed_short: "length it < k \<Longrightarrow> window_seed k els it = (None, [])"
proof (induction k arbitrary: els it)
  case 0
  then show ?case by simp
next
  case (Suc k)
  show ?case
  proof (cases it)
    case Nil
    then show ?thesis by (simp add: iter_next_Nil)
  next
    case (Cons x xs)
    with Suc.prems have "length xs < k" by simp
    then show ?thesis using Cons by (simp add: iter_next_Cons Suc.IH)
  qed
qed

lemma window_resume_slide:
  "window_resume \<lparr>pc = GenSuspended, window_size = ws, elements = old # els, wsrc = el # it\<rparr>
     = Yield (els @ [el])
         \<lparr>pc = GenSuspended, window_size = ws, elements = els @ [el], wsrc = it\<rparr>"
  by (simp add: window_resume_def list_next_def)

lemma window_resume_end:
  "window_resume \<lparr>pc = GenSuspended, window_size = ws, elements = els, wsrc = []\<rparr>
     = Stop \<lparr>pc = GenFinished, window_size = ws, elements = els, wsrc = []\<rparr>"
  by (simp add: window_resume_def list_next_def)

lemma drain_window_loop:
  "els \<noteq> [] \<Longrightarrow>
   \<exists>g'. drain window_resume acc
           \<lparr>pc = GenSuspended, window_size = ws, elements = els, wsrc = it\<rparr>
         = Some (Inr (rev acc @ map (\<lambda>i. take (length els) (drop (Suc i) (els @ it)))
                                  [0..<length it]), g')"
proof (induction it arbitrary: els acc)
  case Nil
  show ?case by (simp add: drain_Stop [where nxt = window_resume, OF window_resume_end])
next
  case (Cons el it)
  from Cons.prems obtain old rest where els: "els = old # rest"
    by (cases els) auto
  let ?els' = "rest @ [el]"
  have ne: "?els' \<noteq> []" by simp
  from Cons.IH [OF ne, of "?els' # acc"] obtain g' where
    run: "drain window_resume (?els' # acc)
            \<lparr>pc = GenSuspended, window_size = ws, elements = ?els', wsrc = it\<rparr>
          = Some (Inr (rev (?els' # acc) @ map (\<lambda>i. take (length ?els') (drop (Suc i) (?els' @ it)))
                                   [0..<length it]), g')"
    by blast
  have step: "drain window_resume acc
            \<lparr>pc = GenSuspended, window_size = ws, elements = els, wsrc = el # it\<rparr>
          = drain window_resume (?els' # acc)
            \<lparr>pc = GenSuspended, window_size = ws, elements = ?els', wsrc = it\<rparr>"
    unfolding els by (rule drain_Yield) (rule window_resume_slide)
  have shift: "map (\<lambda>i. take (length els) (drop (Suc i) (els @ el # it))) [0..<length (el # it)]
      = ?els' # map (\<lambda>i. take (length ?els') (drop (Suc i) (?els' @ it))) [0..<length it]"
    by (simp add: els map_upt_Suc del: upt_Suc)
  show ?case using step run shift by simp
qed

lemma drain_window:
  assumes "0 < n"
  shows "\<exists>g'. drain window_resume []
            \<lparr>pc = GenCreated, window_size = int n, elements = [], wsrc = P\<rparr>
          = Some (Inr (if length P < n then []
                       else map (\<lambda>i. take n (drop i P)) [0..<length P - n + 1]), g')"
proof (cases "length P < n")
  case True
  have "window_resume \<lparr>pc = GenCreated, window_size = int n, elements = [], wsrc = P\<rparr>
          = Stop \<lparr>pc = GenFinished, window_size = int n, elements = [], wsrc = []\<rparr>"
    by (simp add: window_resume_def window_seed_short [OF True])
  from drain_Stop [where nxt = window_resume, OF this] True show ?thesis by simp
next
  case False
  then have le: "n \<le> length P" by simp
  let ?els = "take n P"
  have ne: "?els \<noteq> []" using assms le by auto
  have first: "window_resume \<lparr>pc = GenCreated, window_size = int n, elements = [], wsrc = P\<rparr>
          = Yield ?els \<lparr>pc = GenSuspended, window_size = int n, elements = ?els, wsrc = drop n P\<rparr>"
    by (simp add: window_resume_def window_seed_enough [OF le])
  from drain_window_loop [OF ne, of "[?els]" "int n" "drop n P"] obtain g' where
    run: "drain window_resume [?els]
            \<lparr>pc = GenSuspended, window_size = int n, elements = ?els, wsrc = drop n P\<rparr>
          = Some (Inr (rev [?els] @ map (\<lambda>i. take (length ?els) (drop (Suc i) (?els @ drop n P)))
                                   [0..<length (drop n P)]), g')"
    by blast
  have len: "length ?els = n" using le by simp
  have "map (\<lambda>i. take n (drop i P)) [0..<length P - n + 1]
          = ?els # map (\<lambda>i. take n (drop (Suc i) P)) [0..<length P - n]"
    by (simp add: map_upt_Suc del: upt_Suc)
  then have "drain window_resume []
            \<lparr>pc = GenCreated, window_size = int n, elements = [], wsrc = P\<rparr>
          = Some (Inr (map (\<lambda>i. take n (drop i P)) [0..<length P - n + 1]), g')"
    using drain_Yield [where nxt = window_resume, OF first, of "[]"] run len by simp
  with False show ?thesis by auto
qed

text \<open>
  C4. For every finite producer \<open>P\<close> and every \<open>n \<ge> 1\<close>: when \<open>P\<close> has fewer than \<open>n\<close>
  elements, collecting \<open>window(P, n)\<close> returns the empty list and no error; otherwise it
  returns \<open>length P - n + 1\<close> groups, and group \<open>i\<close> (counted from 0) is the slice of \<open>P\<close>
  from index \<open>i\<close> to \<open>i + n\<close>, so that successive groups overlap and advance by one element.
\<close>

theorem window_slices:
  assumes "1 \<le> n"
  shows "iter_window_collect P n =
           Some (Inr (if int (length P) < n then []
                      else map (\<lambda>i. take (nat n) (drop i P)) [0..<length P - nat n + 1]))"
proof -
  from assms have pos: "0 < nat n" and n: "int (nat n) = n" by simp_all
  from drain_window [OF pos, of P] obtain g' where
    "drain window_resume [] \<lparr>pc = GenCreated, window_size = n, elements = [], wsrc = P\<rparr>
       = Some (Inr (if length P < nat n then []
                    else map (\<lambda>i. take (nat n) (drop i P)) [0..<length P - nat n + 1]), g')"
    unfolding n by blast
  moreover have "length P < nat n \<longleftrightarrow> int (length P) < n" using assms by linarith
  ultimately show ?thesis
    by (simp add: iter_window_collect_def iter_window_def iter_window_gen_def py_list_def)
qed

theorem window_slices_witness:
  "(1::int) \<le> 2
   \<and> iter_window_collect [1, 2, 3 :: int] 2 = Some (Inr [[1, 2], [2, 3]])
   \<and> (1::int) \<le> 4
   \<and> iter_window_collect [1, 2, 3 :: int] 4 = Some (Inr [])"
  using window_slices [of 2 "[1, 2, 3 :: int]"] window_slices [of 4 "[1, 2, 3 :: int]"]
  by (simp add: upt_rec numeral_2_eq_2)

subsection \<open>Padded chunks\<close>

lemma zip_longest_pull_full:
  "k \<le> length it \<Longrightarrow>
   zip_longest_pull fv (replicate k True) na it
     = (Some (take k it, replicate k True, na), drop k it)"
proof (induction k arbitrary: it)
  case 0
  then show ?case by simp
next
  case (Suc k)
  then obtain x xs where "it = x # xs" and "k \<le> length xs"
    by (auto simp: Suc_le_length_iff)
  then show ?case by (simp add: iter_next_Cons Suc.IH)
qed

lemma zip_longest_pull_fill:
  "k < na \<Longrightarrow>
   zip_longest_pull fv (replicate k True) na []
     = (Some (replicate k fv, replicate k False, na - k), [])"
proof (induction k arbitrary: na)
  case 0
  then show ?case by simp
next
  case (Suc k)
  then have "k < na - 1" and "na - 1 \<noteq> 0" by simp_all
  then show ?case by (simp add: iter_next_Nil Suc.IH)
qed

lemma zip_longest_pull_last:
  "0 < na \<Longrightarrow> na \<le> k \<Longrightarrow>
   zip_longest_pull fv (replicate k True @ rest) na [] = (None, [])"
proof (induction k arbitrary: na)
  case 0
  then show ?case by simp
next
  case (Suc k)
  show ?case
  proof (cases "na - 1 = 0")
    case True
    then show ?thesis by (simp add: iter_next_Nil)
  next
    case False
    then have "0 < na - 1" and "na - 1 \<le> k" using Suc.prems by simp_all
    then show ?thesis using False by (simp add: iter_next_Nil Suc.IH)
  qed
qed

lemma zip_longest_pull_partial:
  "j < na \<Longrightarrow>
   zip_longest_pull fv (replicate (length it + j) True) na it
     = (Some (it @ replicate j fv, replicate (length it) True @ replicate j False, na - j), [])"
proof (induction it)
  case Nil
  then show ?case by (simp add: zip_longest_pull_fill)
next
  case (Cons x xs)
  then show ?case by (simp add: iter_next_Cons)
qed

lemma zip_longest_next_full:
  assumes "0 < n" and "n \<le> length it"
  shows "zip_longest_next \<lparr>ittuple = replicate n True, numactive = n, fillvalue = fv, zlsrc = it\<rparr>
     = Yield (take n it)
         \<lparr>ittuple = replicate n True, numactive = n, fillvalue = fv, zlsrc = drop n it\<rparr>"
  using assms by (simp add: zip_longest_next_def zip_longest_pull_full)

lemma zip_longest_next_empty:
  assumes "0 < n"
  shows "zip_longest_next \<lparr>ittuple = replicate n True, numactive = n, fillvalue = fv, zlsrc = []\<rparr>
     = Stop \<lparr>ittuple = replicate n True, numactive = 0, fillvalue = fv, zlsrc = []\<rparr>"
  using assms zip_longest_pull_last [of n n fv "[]"]
  by (simp add: zip_longest_next_def)

lemma zip_longest_next_partial:
  assumes "it \<noteq> []" and "length it < n"
  shows "zip_longest_next \<lparr>ittuple = replicate n True, numactive = n, fillvalue = fv, zlsrc = it\<rparr>
     = Yield (it @ replicate (n - length it) fv)
         \<lparr>ittuple = replicate (length it) True @ replicate (n - length it) False,
          numactive = length it, fillvalue = fv, zlsrc = []\<rparr>"
proof -
  have j: "n - length it < n" using assms by (cases it) auto
  have n: "length it + (n - length it) = n" using assms by simp
  from zip_longest_pull_partial [OF j, of fv it] show ?thesis
    using assms by (simp add: zip_longest_next_def n)
qed

lemma zip_longest_next_after_partial:
  assumes "0 < m"
  shows "zip_longest_next \<lparr>ittuple = replicate m True @ rest, numactive = m, fillvalue = fv, zlsrc = []\<rparr>
     = Stop \<lparr>ittuple = replicate m True @ rest, numactive = 0, fillvalue = fv, zlsrc = []\<rparr>"
  using assms zip_longest_pull_last [of m m fv rest]
  by (simp add: zip_longest_next_def)

lemma drain_zip_longest:
  assumes "0 < n"
  shows "\<exists>gs z'. drain zip_longest_next acc
               \<lparr>ittuple = replicate n True, numactive = n, fillvalue = fv, zlsrc = it\<rparr>
             = Some (Inr (rev acc @ gs), z')
           \<and> length gs = length it div n + (if length it mod n = 0 then 0 else 1)
           \<and> (\<forall>g \<in> set gs. length g = n)
           \<and> concat gs = it @ replicate ((n - length it mod n) mod n) fv"
proof (induction it arbitrary: acc rule: length_induct)
  case (1 it)
  let ?z = "\<lambda>it. \<lparr>ittuple = replicate n True, numactive = n, fillvalue = fv, zlsrc = it\<rparr>"
  consider (empty) "it = []" | (partial) "it \<noteq> []" "length it < n" | (full) "n \<le> length it"
    by fastforce
  then show ?case
  proof cases
    case empty
    have "drain zip_longest_next acc (?z [])
            = Some (Inr (rev acc),
                \<lparr>ittuple = replicate n True, numactive = 0, fillvalue = fv, zlsrc = []\<rparr>)"
      by (rule drain_Stop) (rule zip_longest_next_empty [OF assms])
    with empty show ?thesis by simp
  next
    case partial
    let ?g = "it @ replicate (n - length it) fv"
    let ?z1 = "\<lparr>ittuple = replicate (length it) True @ replicate (n - length it) False,
          numactive = length it, fillvalue = fv, zlsrc = []\<rparr>"
    have m: "0 < length it" using partial by simp
    have a: "drain zip_longest_next acc (?z it) = drain zip_longest_next (?g # acc) ?z1"
      by (rule drain_Yield) (rule zip_longest_next_partial [OF partial])
    have b: "drain zip_longest_next (?g # acc) ?z1
               = Some (Inr (rev (?g # acc)), ?z1\<lparr>numactive := 0\<rparr>)"
      by (rule drain_Stop) (simp add: zip_longest_next_after_partial [OF m])
    have "drain zip_longest_next acc (?z it) = Some (Inr (rev acc @ [?g]), ?z1\<lparr>numactive := 0\<rparr>)"
      using a b by simp
    moreover have "length [?g] = length it div n + (if length it mod n = 0 then 0 else 1)"
      using partial by simp
    moreover have "\<forall>g \<in> set [?g]. length g = n" using partial by simp
    moreover have "concat [?g] = it @ replicate ((n - length it mod n) mod n) fv"
      using partial by simp
    ultimately show ?thesis by blast
  next
    case full
    have shorter: "length (drop n it) < length it" using assms full by simp
    from 1 [rule_format, OF shorter, of "take n it # acc"]
    obtain gs z' where
      run: "drain zip_longest_next (take n it # acc) (?z (drop n it))
              = Some (Inr (rev (take n it # acc) @ gs), z')"
      and len: "length gs = length (drop n it) div n + (if length (drop n it) mod n = 0 then 0 else 1)"
      and sz: "\<forall>g \<in> set gs. length g = n"
      and cat: "concat gs = drop n it @ replicate ((n - length (drop n it) mod n) mod n) fv"
      by blast
    have step: "drain zip_longest_next acc (?z it)
                  = drain zip_longest_next (take n it # acc) (?z (drop n it))"
      by (rule drain_Yield) (rule zip_longest_next_full [OF assms full])
    have d: "length it div n = Suc ((length it - n) div n)"
      using assms full by (simp add: le_div_geq)
    have md: "(length it - n) mod n = length it mod n"
      using full by (simp add: le_mod_geq)
    have "drain zip_longest_next acc (?z it) = Some (Inr (rev acc @ (take n it # gs)), z')"
      using step run by simp
    moreover have "length (take n it # gs)
                     = length it div n + (if length it mod n = 0 then 0 else 1)"
      using len d md by simp
    moreover have "\<forall>g \<in> set (take n it # gs). length g = n"
      using sz full by simp
    moreover have "concat (take n it # gs) = it @ replicate ((n - length it mod n) mod n) fv"
      using cat md by simp
    ultimately show ?thesis by blast
  qed
qed

lemma zip_longest_collect_example:
  "py_list zip_longest_next
     \<lparr>ittuple = replicate 2 True, numactive = 2, fillvalue = 0 :: int, zlsrc = [1, 2, 3, 4, 5]\<rparr>
     = Some (Inr [[1, 2], [3, 4], [5, 0]],
         \<lparr>ittuple = [True, False], numactive = 0, fillvalue = 0, zlsrc = []\<rparr>)"
proof -
  let ?z = "\<lambda>it. \<lparr>ittuple = [True, True], numactive = 2, fillvalue = 0 :: int, zlsrc = it\<rparr>"
  let ?z1 = "\<lparr>ittuple = [True, False], numactive = 1, fillvalue = 0 :: int, zlsrc = []\<rparr>"
  have a: "zip_longest_next (?z [1, 2, 3, 4, 5]) = Yield [1, 2] (?z [3, 4, 5])"
    by (simp add: zip_longest_next_def iter_next_Cons)
  have b: "zip_longest_next (?z [3, 4, 5]) = Yield [3, 4] (?z [5])"
    by (simp add: zip_longest_next_def iter_next_Cons)
  have c: "zip_longest_next (?z [5]) = Yield [5, 0] ?z1"
    by (simp add: zip_longest_next_def iter_next_Cons iter_next_Nil)
  have d: "zip_longest_next ?z1 = Stop (?z1\<lparr>numactive := 0\<rparr>)"
    by (simp add: zip_longest_next_def iter_next_Nil)
  have "drain zip_longest_next [] (?z [1, 2, 3, 4, 5])
          = drain zip_longest_next [[1, 2]] (?z [3, 4, 5])"
    by (rule drain_Yield) (rule a)
  also have "\<dots> = drain zip_longest_next [[3, 4], [1, 2]] (?z [5])"
    by (rule drain_Yield) (rule b)
  also have "\<dots> = drain zip_longest_next [[5, 0], [3, 4], [1, 2]] ?z1"
    by (rule drain_Yield) (rule c)
  also have "\<dots> = Some (Inr (rev [[5, 0], [3, 4], [1, 2]]), ?z1\<lparr>numactive := 0\<rparr>)"
    by (rule drain_Stop) (rule d)
  finally have run: "drain zip_longest_next [] (?z [1, 2, 3, 4, 5])
          = Some (Inr [[1, 2], [3, 4], [5, 0]], ?z1\<lparr>numactive := 0\<rparr>)"
    by simp
  have r: "replicate 2 True = [True, True]"
    by (simp add: numeral_2_eq_2)
  show ?thesis by (simp add: py_list_def r run)
qed

text \<open>
  C6, as stated, holds for every size \<open>n \<ge> 1\<close>. With the size \<open>2^63\<close>, which is no
  index-sized integer, the call fails with an OverflowError, and with the size \<open>2^63 - 1\<close>
  with a MemoryError, where the claim has the collection return one padded group.
\<close>

theorem chunk_default_size_counterexample:
  "iter_chunk_default_collect 1000 [1, 2, 3 :: int] (2 ^ 63) 0 = Some (Inl OverflowError)
   \<and> iter_chunk_default_collect 1000 [1, 2, 3 :: int] (2 ^ 63 - 1) 0 = Some (Inl MemoryError)"
proof -
  have "list_repeat 1000 (2 ^ 63) = Inl OverflowError"
    by (rule list_repeat_overflow) (simp add: PY_SSIZE_T_MAX_def)
  moreover have "list_repeat 1000 (2 ^ 63 - 1) = Inl MemoryError"
    by (rule list_repeat_refused) (simp_all add: PY_SSIZE_T_MAX_def)
  ultimately show ?thesis
    by (simp add: iter_chunk_default_collect_def iter_chunk_default_def chunk_default_def)
qed

text \<open>
  C6, amended. For every finite producer \<open>P\<close>, every value \<open>default\<close> and every size
  \<open>n \<ge> 1\<close> of which the interpreter can build the list of \<open>n\<close> references (\<open>n\<close> at most
  \<open>PY_SSIZE_T_MAX div 8\<close> and within the memory of the machine), collecting
  \<open>chunk_default(P, n, default)\<close> returns the ceiling of \<open>length P / n\<close> groups, each of
  \<open>n\<close> elements; their concatenation is \<open>P\<close> followed by fewer than \<open>n\<close> copies of
  \<open>default\<close>, so every padding element of the last group is \<open>default\<close>. In particular
  \<open>chunk_default([1,2,3,4,5], 2, 0)\<close> collects to \<open>[(1,2),(3,4),(5,0)]\<close>. A size above
  \<open>PY_SSIZE_T_MAX\<close> is an OverflowError of the call.
\<close>

theorem chunk_default_groups:
  "(1 \<le> n \<and> n \<le> PY_SSIZE_T_MAX div 8 \<and> n \<le> int capacity \<longrightarrow>
      (\<exists>gs. iter_chunk_default_collect capacity P n dflt = Some (Inr gs)
          \<and> length gs = length P div nat n + (if length P mod nat n = 0 then 0 else 1)
          \<and> (\<forall>g \<in> set gs. length g = nat n)
          \<and> concat gs = P @ replicate ((nat n - length P mod nat n) mod nat n) dflt))
   \<and> (2 \<le> capacity \<longrightarrow>
        iter_chunk_default_collect capacity [1, 2, 3, 4, 5 :: int] 2 0
          = Some (Inr [[1, 2], [3, 4], [5, 0]]))
   \<and> (PY_SSIZE_T_MAX < n \<longrightarrow>
        iter_chunk_default_collect capacity P n dflt = Some (Inl OverflowError))"
proof (intro conjI impI)
  assume h: "1 \<le> n \<and> n \<le> PY_SSIZE_T_MAX div 8 \<and> n \<le> int capacity"
  then have pos: "0 < nat n" by simp
  from h have fits: "list_repeat capacity n = Inr (nat n)"
    by (simp add: list_repeat_fits)
  have "\<exists>gs z'. drain zip_longest_next []
         \<lparr>ittuple = replicate (nat n) True, numactive = nat n, fillvalue = dflt, zlsrc = P\<rparr>
         = Some (Inr gs, z')
      \<and> length gs = length P div nat n + (if length P mod nat n = 0 then 0 else 1)
      \<and> (\<forall>g \<in> set gs. length g = nat n)
      \<and> concat gs = P @ replicate ((nat n - length P mod nat n) mod nat n) dflt"
    using drain_zip_longest [OF pos, of "[]" dflt P] by simp
  then obtain gs z' where
    "drain zip_longest_next []
       \<lparr>ittuple = replicate (nat n) True, numactive = nat n, fillvalue = dflt, zlsrc = P\<rparr>
       = Some (Inr gs, z')"
    and "length gs = length P div nat n + (if length P mod nat n = 0 then 0 else 1)"
    and "\<forall>g \<in> set gs. length g = nat n"
    and "concat gs = P @ replicate ((nat n - length P mod nat n) mod nat n) dflt"
    by blast
  then show "\<exists>gs. iter_chunk_default_collect capacity P n dflt = Some (Inr gs)
        \<and> length gs = length P div nat n + (if length P mod nat n = 0 then 0 else 1)
        \<and> (\<forall>g \<in> set gs. length g = nat n)
        \<and> concat gs = P @ replicate ((nat n - length P mod nat n) mod nat n) dflt"
    by (simp add: iter_chunk_default_collect_def iter_chunk_default_def chunk_default_def
        fits py_list_def)
next
  assume "2 \<le> capacity"
  then have "list_repeat capacity 2 = Inr 2"
    using list_repeat_fits [of 2 capacity] by (simp add: PY_SSIZE_T_MAX_def)
  then show "iter_chunk_default_collect capacity [1, 2, 3, 4, 5 :: int] 2 0
          = Some (Inr [[1, 2], [3, 4], [5, 0]])"
    by (simp add: iter_chunk_default_collect_def iter_chunk_default_def chunk_default_def
        zip_longest_collect_example)
next
  assume "PY_SSIZE_T_MAX < n"
  then have "list_repeat capacity n = Inl OverflowError"
    by (simp add: list_repeat_overflow)
  then show "iter_chunk_default_collect capacity P n dflt = Some (Inl OverflowError)"
    by (simp add: iter_chunk_default_collect_def iter_chunk_default_def chunk_default_def)
qed

theorem chunk_default_groups_witness:
  "(1::int) \<le> 3 \<and> 3 \<le> PY_SSIZE_T_MAX div 8 \<and> (3::int) \<le> int 1000
   \<and> (\<exists>gs. iter_chunk_default_collect 1000 [1, 2, 3, 4, 5, 6, 7 :: int] 3 9 = Some (Inr gs)
          \<and> length gs = 3
          \<and> (\<forall>g \<in> set gs. length g = 3)
          \<and> concat gs = [1, 2, 3, 4, 5, 6, 7, 9, 9])
   \<and> (2::nat) \<le> 1000
   \<and> iter_chunk_default_collect 1000 [1, 2, 3, 4, 5 :: int] 2 0
       = Some (Inr [[1, 2], [3, 4], [5, 0]])
   \<and> PY_SSIZE_T_MAX < 2 ^ 64
   \<and> iter_chunk_default_collect 1000 [1, 2, 3, 4, 5, 6, 7 :: int] (2 ^ 64) 9
       = Some (Inl OverflowError)"
proof -
  let ?P = "[1, 2, 3, 4, 5, 6, 7 :: int]"
  have h: "(1::int) \<le> 3 \<and> 3 \<le> PY_SSIZE_T_MAX div 8 \<and> (3::int) \<le> int 1000"
    by (simp add: PY_SSIZE_T_MAX_def)
  have c: "(2::nat) \<le> 1000" by simp
  have o: "PY_SSIZE_T_MAX < 2 ^ 64" by (simp add: PY_SSIZE_T_MAX_def)
  have n: "nat 3 = 3" by simp
  have l: "length ?P div 3 + (if length ?P mod 3 = 0 then 0 else 1) = 3" by simp
  have "replicate 2 (9::int) = [9, 9]" by (simp add: numeral_2_eq_2)
  then have r: "?P @ replicate ((3 - length ?P mod 3) mod 3) 9 = [1, 2, 3, 4, 5, 6, 7, 9, 9]"
    by simp
  from chunk_default_groups [of 3 1000 ?P 9] h c
  have "(\<exists>gs. iter_chunk_default_collect 1000 ?P 3 9 = Some (Inr gs)
          \<and> length gs = length ?P div nat 3 + (if length ?P mod nat 3 = 0 then 0 else 1)
          \<and> (\<forall>g \<in> set gs. length g = nat 3)
          \<and> concat gs = ?P @ replicate ((nat 3 - length ?P mod nat 3) mod nat 3) 9)
     \<and> iter_chunk_default_collect 1000 [1, 2, 3, 4, 5 :: int] 2 0
         = Some (Inr [[1, 2], [3, 4], [5, 0]])"
    by blast
  moreover from chunk_default_groups [of "2 ^ 64" 1000 ?P 9] o
  have "iter_chunk_default_collect 1000 ?P (2 ^ 64) 9 = Some (Inl OverflowError)"
    by blast
  ultimately show ?thesis unfolding n l r using h c o by blast
qed

subsection \<open>Branches of a split\<close>

text \<open>What branch \<open>i\<close> has still to yield: its deque, then the shared iterator.\<close>

lemma tee_next_own:
  assumes "i < length (deques st)"
  shows "(deques st ! i @ tee_it st = [] \<longrightarrow>
            (\<exists>st'. tee_next i st = Stop st' \<and> length (deques st') = length (deques st)
                 \<and> (\<forall>j < length (deques st). deques st' ! j @ tee_it st' = deques st ! j @ tee_it st)))
       \<and> (\<forall>v rest. deques st ! i @ tee_it st = v # rest \<longrightarrow>
            (\<exists>st'. tee_next i st = Yield v st' \<and> length (deques st') = length (deques st)
                 \<and> deques st' ! i @ tee_it st' = rest
                 \<and> (\<forall>j < length (deques st). j \<noteq> i \<longrightarrow>
                        deques st' ! j @ tee_it st' = deques st ! j @ tee_it st)))"
proof (cases "deques st ! i")
  case (Cons v d)
  then show ?thesis using assms
    by (auto simp: tee_next_def tee_fetch_def nth_list_update)
next
  case Nil
  show ?thesis
  proof (cases "tee_it st")
    case Nil': Nil
    then show ?thesis using Nil assms
      by (auto simp: tee_next_def tee_fetch_def list_next_def)
  next
    case (Cons v it')
    then show ?thesis using Nil assms
      by (auto simp: tee_next_def tee_fetch_def list_next_def nth_list_update)
  qed
qed

lemma tee_next_absent: "\<not> i < length (deques st) \<Longrightarrow> tee_next i st = Stop st"
  by (simp add: tee_next_def)

lemma drive_branches_branch:
  assumes "i < length (deques st)"
  shows "branch_values i (fst (drive_branches sched st))
           = take (count_list sched i) (deques st ! i @ tee_it st)
       \<and> length (deques (snd (drive_branches sched st))) = length (deques st)
       \<and> deques (snd (drive_branches sched st)) ! i @ tee_it (snd (drive_branches sched st))
           = drop (count_list sched i) (deques st ! i @ tee_it st)"
  using assms
proof (induction sched arbitrary: st)
  case Nil
  show ?case by (simp add: branch_values_def)
next
  case (Cons j sched)
  show ?case
  proof (cases "j < length (deques st)")
    case False
    then have "tee_next j st = Stop st" by (rule tee_next_absent)
    moreover from False Cons.prems have "j \<noteq> i" by auto
    ultimately show ?thesis using Cons.IH [OF Cons.prems] by simp
  next
    case True
    note own = tee_next_own [OF True]
    show ?thesis
    proof (cases "deques st ! j @ tee_it st")
      case Nil
      with own obtain st' where
        nx: "tee_next j st = Stop st'" and
        len: "length (deques st') = length (deques st)" and
        same: "\<forall>k < length (deques st). deques st' ! k @ tee_it st' = deques st ! k @ tee_it st"
        by blast
      from Cons.prems len have i': "i < length (deques st')" by simp
      from same Cons.prems have ri: "deques st' ! i @ tee_it st' = deques st ! i @ tee_it st"
        by blast
      show ?thesis
      proof (cases "j = i")
        case True
        with Nil ri have "deques st' ! i @ tee_it st' = []" and "deques st ! i @ tee_it st = []"
          by simp_all
        then show ?thesis using Cons.IH [OF i'] nx len by simp
      next
        case False
        then show ?thesis using Cons.IH [OF i'] nx len ri by simp
      qed
    next
      case (Cons v rest)
      with own obtain st' where
        nx: "tee_next j st = Yield v st'" and
        len: "length (deques st') = length (deques st)" and
        mine: "deques st' ! j @ tee_it st' = rest" and
        same: "\<forall>k < length (deques st). k \<noteq> j \<longrightarrow>
                 deques st' ! k @ tee_it st' = deques st ! k @ tee_it st"
        by blast
      from Cons.prems len have i': "i < length (deques st')" by simp
      obtain out st'' where dr: "drive_branches sched st' = (out, st'')"
        by (cases "drive_branches sched st'")
      have whole: "drive_branches (j # sched) st = ((j, v) # out, st'')"
        using nx dr by simp
      note ih = Cons.IH [OF i', unfolded dr fst_conv snd_conv]
      show ?thesis
      proof (cases "j = i")
        case True
        with mine Cons have r: "deques st' ! i @ tee_it st' = rest"
          and r0: "deques st ! i @ tee_it st = v # rest" by simp_all
        show ?thesis
          unfolding whole fst_conv snd_conv using ih True len
          by (simp add: r r0 branch_values_def)
      next
        case False
        with same Cons.prems have r: "deques st' ! i @ tee_it st' = deques st ! i @ tee_it st"
          by blast
        show ?thesis
          unfolding whole fst_conv snd_conv using ih False len
          by (simp add: r branch_values_def)
      qed
    qed
  qed
qed

lemma drain_tee_branch:
  assumes "i < length (deques st)"
  shows "\<exists>st'. drain (tee_next i) acc st = Some (Inr (rev acc @ deques st ! i @ tee_it st), st')"
  using assms
proof (induction "deques st ! i @ tee_it st" arbitrary: st acc)
  case Nil
  then have "deques st ! i @ tee_it st = []" by simp
  with tee_next_own [OF Nil.prems] obtain st' where "tee_next i st = Stop st'"
    by blast
  from drain_Stop [where nxt = "tee_next i", OF this] Nil.hyps [symmetric]
  show ?case by simp
next
  case (Cons v rest)
  then have r0: "deques st ! i @ tee_it st = v # rest" by simp
  with tee_next_own [OF Cons.prems] obtain st' where
    nx: "tee_next i st = Yield v st'" and
    len: "length (deques st') = length (deques st)" and
    mine: "deques st' ! i @ tee_it st' = rest"
    by blast
  from Cons.prems len have i': "i < length (deques st')" by simp
  from Cons.hyps(1) [OF mine [symmetric] i', of "v # acc"] obtain st'' where
    "drain (tee_next i) (v # acc) st' = Some (Inr (rev (v # acc) @ rest), st'')"
    using mine by auto
  then show ?case
    using drain_Yield [where nxt = "tee_next i", OF nx, of acc] r0 by simp
qed

text \<open>
  C9. For every finite producer \<open>P\<close>, every branch returned by \<open>tee(P)\<close> collects to the
  sequence that \<open>collect(P)\<close> returns, in whatever order the branches are driven: after any
  schedule of \<open>next\<close> calls on the branches, the values a branch has obtained so far are a
  prefix of \<open>P\<close> (one element for each of its calls, as long as there are any), and collecting
  the branch then returns the rest of \<open>P\<close>.
\<close>

theorem tee_branches_replay:
  assumes "iter_tee P n = Inr st" and "i < nat n"
  shows "\<exists>rest st'.
           py_list (tee_next i) (snd (drive_branches sched st)) = Some (Inr rest, st')
         \<and> branch_values i (fst (drive_branches sched st)) = take (count_list sched i) P
         \<and> rest = drop (count_list sched i) P
         \<and> map_option fst (iter_collect P)
             = Some (Inr (branch_values i (fst (drive_branches sched st)) @ rest))"
proof -
  from assms have st: "st = \<lparr>tee_it = P, deques = replicate (nat n) []\<rparr>"
    by (auto simp: iter_tee_def itertools_tee_def split: if_splits)
  with assms have i: "i < length (deques st)" and r0: "deques st ! i @ tee_it st = P"
    by simp_all
  note run = drive_branches_branch [OF i, of sched, unfolded r0]
  let ?st1 = "snd (drive_branches sched st)"
  from run i have i1: "i < length (deques ?st1)" by simp
  from drain_tee_branch [OF i1, of "[]"] obtain st' where
    "drain (tee_next i) [] ?st1 = Some (Inr (deques ?st1 ! i @ tee_it ?st1), st')"
    by auto
  with run have "py_list (tee_next i) ?st1 = Some (Inr (drop (count_list sched i) P), st')"
    by (simp add: py_list_def)
  then show ?thesis using run by (simp add: iter_collect_eq)
qed

theorem tee_branches_replay_witness:
  "iter_tee [1, 2, 3 :: int] 2 = Inr \<lparr>tee_it = [1, 2, 3], deques = [[], []]\<rparr>
   \<and> (1::nat) < nat 2
   \<and> (\<exists>rest st'.
         py_list (tee_next 1)
           (snd (drive_branches [0, 0, 1, 0] \<lparr>tee_it = [1, 2, 3 :: int], deques = [[], []]\<rparr>))
           = Some (Inr rest, st')
       \<and> branch_values 1
           (fst (drive_branches [0, 0, 1, 0] \<lparr>tee_it = [1, 2, 3 :: int], deques = [[], []]\<rparr>))
           = [1]
       \<and> rest = [2, 3])"
proof -
  have a: "iter_tee [1, 2, 3 :: int] 2 = Inr \<lparr>tee_it = [1, 2, 3], deques = [[], []]\<rparr>"
    by (simp add: iter_tee_def itertools_tee_def numeral_2_eq_2)
  have b: "(1::nat) < nat 2" by simp
  have c: "count_list [0, 0, 1, 0] (1::nat) = 1" by simp
  from tee_branches_replay [OF a b, of "[0, 0, 1, 0]"] show ?thesis
    unfolding c using a b by simp
qed

subsection \<open>Failure kinds\<close>

lemma iter_take_enough:
  "n \<le> int (length it) \<Longrightarrow> iter_take it n = (Inr (take (nat n) it), drop (nat n) it)"
  unfolding iter_take_def by (rule take_genexpr_enough) linarith

lemma iter_take_short: "int (length it) < n \<Longrightarrow> iter_take it n = (Inl RuntimeError, [])"
  unfolding iter_take_def by (rule take_genexpr_short) linarith

lemma iter_skip_short: "int (length it) < n \<Longrightarrow> iter_skip it n = (Inl StopIteration, [])"
  unfolding iter_skip_def by (rule skip_loop_short) linarith

lemma iter_nth_short:
  assumes "int (length it) \<le> n"
  shows "iter_nth it n = (Inl StopIteration, [])"
proof (cases "int (length it) < n")
  case True
  then show ?thesis by (simp add: iter_nth_def iter_skip_short)
next
  case False
  with assms have "nat n = length it" by simp
  then have "iter_skip it n = (Inr (), [])"
    by (simp add: iter_skip_def skip_loop_enough)
  then show ?thesis by (simp add: iter_nth_def iter_next_Nil)
qed

lemma iter_min_Nil: "iter_min [] key = Inl ValueError"
  by (simp add: iter_min_def builtins_min_def)

lemma iter_max_Nil: "iter_max [] key = Inl ValueError"
  by (simp add: iter_max_def builtins_max_def)

text \<open>
  C7, as stated, has \<open>take\<close> signal on underflow the one failure kind that \<open>next\<close>,
  \<open>skip\<close>, \<open>nth\<close>, \<open>min\<close> and \<open>max\<close> signal. There is no such kind: on an exhausted
  wrapper \<open>next\<close> raises StopIteration while \<open>min\<close> and \<open>max\<close> raise ValueError, and
  \<open>take(2)\<close> on one element raises neither but RuntimeError.
\<close>

theorem exhaustion_kinds_counterexample:
  "failure_of (fst (iter_next ([] :: int list))) = Some StopIteration
   \<and> failure_of (iter_min ([] :: int list) id) = Some ValueError
   \<and> failure_of (iter_max ([] :: int list) id) = Some ValueError
   \<and> failure_of (fst (iter_take [1 :: int] 2)) = Some RuntimeError"
  by (simp add: iter_next_Nil iter_min_Nil iter_max_Nil iter_take_short)

text \<open>
  C7, amended. For every wrapper and every \<open>n\<close>, \<open>take(n)\<close> returns the next \<open>n\<close> elements
  as an ordered group when at least \<open>n\<close> remain (the empty group when \<open>n \<le> 0\<close>), leaving the
  others in the wrapper, and fails without returning a partial group when fewer than \<open>n\<close>
  remain. On underflow \<open>next\<close>, \<open>skip\<close> and \<open>nth\<close> signal StopIteration; \<open>min\<close> and
  \<open>max\<close> of an exhausted wrapper signal ValueError, a different failure.
\<close>

theorem take_all_or_nothing:
  "(n \<le> int (length it) \<longrightarrow> iter_take it n = (Inr (take (nat n) it), drop (nat n) it))
   \<and> (int (length it) < n \<longrightarrow> isl (fst (iter_take it n)))
   \<and> (int (length it) < n \<longrightarrow> fst (iter_skip it n) = Inl StopIteration)
   \<and> (int (length it) \<le> n \<longrightarrow> fst (iter_nth it n) = Inl StopIteration)
   \<and> fst (iter_next ([] :: 'a list)) = Inl StopIteration
   \<and> iter_min ([] :: 'a list) key = Inl ValueError
   \<and> iter_max ([] :: 'a list) key = Inl ValueError"
  by (simp add: iter_take_enough iter_take_short iter_skip_short iter_nth_short
      iter_next_Nil iter_min_Nil iter_max_Nil)

theorem take_all_or_nothing_witness:
  "(2::int) \<le> int (length [3, 1, 2 :: int])
   \<and> iter_take [3, 1, 2 :: int] 2 = (Inr [3, 1], [2])
   \<and> int (length [3, 1, 2 :: int]) < 4
   \<and> isl (fst (iter_take [3, 1, 2 :: int] 4))
   \<and> fst (iter_skip [3, 1, 2 :: int] 4) = Inl StopIteration
   \<and> int (length [3, 1, 2 :: int]) \<le> 3
   \<and> fst (iter_nth [3, 1, 2 :: int] 3) = Inl StopIteration"
  using take_all_or_nothing [of 2 "[3, 1, 2 :: int]" "id :: int \<Rightarrow> int"]
    take_all_or_nothing [of 4 "[3, 1, 2 :: int]" "id :: int \<Rightarrow> int"]
    take_all_or_nothing [of 3 "[3, 1, 2 :: int]" "id :: int \<Rightarrow> int"]
  by (simp add: numeral_2_eq_2)

subsection \<open>Folding\<close>

text \<open>
  C8, as stated, has \<open>reduce\<close> without an initial value signal, on an exhausted wrapper, the
  failure that \<open>next\<close> signals there. It raises TypeError, \<open>next\<close> raises StopIteration.
\<close>

theorem reduce_failure_counterexample:
  "failure_of (iter_reduce ([] :: int list) operator_add SENTINEL) = Some TypeError
   \<and> failure_of (fst (iter_next ([] :: int list))) = Some StopIteration"
  by (simp add: iter_reduce_def functools_reduce_def iter_next_Nil)

text \<open>
  C8, amended. \<open>reduce\<close> with a function and no initial value returns the left fold of the
  remaining elements (\<open>reduce([1,2,3,4], add) = 10\<close>) and fails with a TypeError when the
  wrapper is already exhausted; with an initial value it folds from that value, and returns it
  unmodified on an empty wrapper (\<open>reduce([], add, initial=0) = 0\<close>).
\<close>

theorem reduce_left_fold:
  "iter_reduce (x # xs) f SENTINEL = Inr (foldl f x xs)
   \<and> iter_reduce [1, 2, 3, 4 :: int] operator_add SENTINEL = Inr 10
   \<and> iter_reduce [] f SENTINEL = Inl TypeError
   \<and> iter_reduce it f (Initial a) = Inr (foldl f a it)
   \<and> iter_reduce [] f (Initial a) = Inr a
   \<and> iter_reduce [] operator_add (Initial (0 :: int)) = Inr 0"
  by (simp add: iter_reduce_def functools_reduce_def operator_add_def)

subsection \<open>Accumulation and reversal\<close>

lemma itertools_accumulate_iterable_first:
  "itertools_accumulate [PyIter [1, 2, 3 :: int], PyFunc operator_add] = Inr [1, 3, 6]"
  by (simp add: operator_add_def)

lemma iter_accumulate_raises: "iter_accumulate self func init = Inl TypeError"
  by (cases init) (simp_all add: iter_accumulate_def)

text \<open>
  C1 fails on the code. \<^verbatim>\<open>iter.accumulate\<close> hands its arguments to
  \<^verbatim>\<open>itertools.accumulate\<close> in the order function, iterable, so the function is taken for
  the iterable and the call is a TypeError; with an initial value the call has three positional
  arguments, a TypeError as well. No running fold is ever produced:
  \<open>accumulate()\<close> on \<open>[1,2,3]\<close> does not yield \<open>[1,3,6]\<close>.
\<close>

theorem accumulate_type_error:
  "iter_accumulate [1, 2, 3 :: int] operator_add SENTINEL = Inl TypeError
   \<and> iter_accumulate [1, 2, 3 :: int] operator_add (Initial 0) = Inl TypeError"
  by (simp add: iter_accumulate_raises)

lemma iter_reversed_raises: "iter_reversed self = Inl TypeError"
  by (simp add: iter_reversed_def)

text \<open>
  C3 fails on the code. \<^verbatim>\<open>iter.sorted\<close> returns the ascending sequence, but
  \<^verbatim>\<open>iter.reversed\<close> passes the wrapper to \<^verbatim>\<open>builtins.reversed\<close>, which accepts
  sequences only: the call is a TypeError and nothing is yielded in reverse order.
\<close>

theorem sorted_reversed_type_error:
  "iter_sorted [2, 3, 1 :: int] id False = Inr [1, 2, 3]
   \<and> iter_reversed [1, 2, 3 :: int] = Inl TypeError
   \<and> builtins_reversed (PyList [1, 2, 3 :: int]) = Inr [3, 2, 1]"
  by (simp add: iter_sorted_def builtins_sorted_def iter_reversed_def)

subsection \<open>Sizes that are not positive\<close>

lemma zip_next_no_argument: "zip_next \<lparr>tuplesize = 0, zsrc = it\<rparr> = Stop \<lparr>tuplesize = 0, zsrc = it\<rparr>"
  by (simp add: zip_next_def)

lemma zip_longest_next_no_argument:
  "zip_longest_next \<lparr>ittuple = [], numactive = 0, fillvalue = fv, zlsrc = it\<rparr>
     = Stop \<lparr>ittuple = [], numactive = 0, fillvalue = fv, zlsrc = it\<rparr>"
  by (simp add: zip_longest_next_def)

lemma chunk_nonpositive:
  "- PY_SSIZE_T_MAX - 1 \<le> n \<Longrightarrow> n \<le> 0 \<Longrightarrow> chunk capacity P n = Inr \<lparr>tuplesize = 0, zsrc = P\<rparr>"
  by (simp add: chunk_def list_repeat_nonpositive)

lemma chunk_default_nonpositive:
  "- PY_SSIZE_T_MAX - 1 \<le> n \<Longrightarrow> n \<le> 0 \<Longrightarrow>
   chunk_default capacity P n dflt
     = Inr \<lparr>ittuple = [], numactive = 0, fillvalue = dflt, zlsrc = P\<rparr>"
  by (simp add: chunk_default_def list_repeat_nonpositive)

lemma iter_chunk_collect_nonpositive:
  "- PY_SSIZE_T_MAX - 1 \<le> n \<Longrightarrow> n \<le> 0 \<Longrightarrow> iter_chunk_collect capacity P n = Some (Inr [])"
  by (simp add: iter_chunk_collect_def iter_chunk_def chunk_nonpositive py_list_def
      drain_Stop [where nxt = zip_next, OF zip_next_no_argument])

lemma iter_chunk_default_collect_nonpositive:
  "- PY_SSIZE_T_MAX - 1 \<le> n \<Longrightarrow> n \<le> 0 \<Longrightarrow>
   iter_chunk_default_collect capacity P n dflt = Some (Inr [])"
  by (simp add: iter_chunk_default_collect_def iter_chunk_default_def chunk_default_nonpositive
      py_list_def drain_Stop [where nxt = zip_longest_next, OF zip_longest_next_no_argument])

text \<open>
  C2, as stated, has every call with a size that is not positive signal an error. With size 0
  on a producer of three elements none of the three calls signals anything, and collecting the
  chunks gives the empty list.
\<close>

theorem nonpositive_size_counterexample:
  "failure_of (chunk 1000 [1, 2, 3 :: int] 0) = None
   \<and> failure_of (chunk_default 1000 [1, 2, 3 :: int] 0 9) = None
   \<and> failure_of (iter_window [1, 2, 3 :: int] 0) = None
   \<and> iter_chunk_collect 1000 [1, 2, 3 :: int] 0 = Some (Inr [])
   \<and> iter_chunk_default_collect 1000 [1, 2, 3 :: int] 0 9 = Some (Inr [])"
proof -
  have "- PY_SSIZE_T_MAX - 1 \<le> 0" by (simp add: PY_SSIZE_T_MAX_def)
  then show ?thesis
    by (simp add: chunk_nonpositive chunk_default_nonpositive iter_window_def
        iter_chunk_collect_nonpositive iter_chunk_default_collect_nonpositive)
qed

text \<open>
  C2, amended. For every producer, empty or not: \<open>window\<close> with any size \<open>n \<le> 0\<close>
  signals no error at the call site and pulls no element there (the generator it returns still
  holds the whole producer). \<open>chunk\<close> and \<open>chunk_default\<close> with a size \<open>n \<le> 0\<close> that
  is an index-sized integer (\<open>n\<close> not below \<open>- PY_SSIZE_T_MAX - 1\<close>) signal no error and
  pull no element either, and collecting their chunks then gives the empty sequence, again with
  no error. Only for a size below \<open>- PY_SSIZE_T_MAX - 1\<close> do \<open>chunk\<close> and
  \<open>chunk_default\<close> fail at the call site, whatever the producer, with an OverflowError.
\<close>

theorem nonpositive_size_no_error:
  "(n \<le> 0 \<longrightarrow>
      iter_window P n = Inr \<lparr>pc = GenCreated, window_size = n, elements = [], wsrc = P\<rparr>)
   \<and> (- PY_SSIZE_T_MAX - 1 \<le> n \<and> n \<le> 0 \<longrightarrow>
        chunk capacity P n = Inr \<lparr>tuplesize = 0, zsrc = P\<rparr>
      \<and> iter_chunk capacity P n = Inr \<lparr>tuplesize = 0, zsrc = P\<rparr>
      \<and> chunk_default capacity P n dflt
          = Inr \<lparr>ittuple = [], numactive = 0, fillvalue = dflt, zlsrc = P\<rparr>
      \<and> iter_chunk_default capacity P n dflt
          = Inr \<lparr>ittuple = [], numactive = 0, fillvalue = dflt, zlsrc = P\<rparr>
      \<and> iter_chunk_collect capacity P n = Some (Inr [])
      \<and> iter_chunk_default_collect capacity P n dflt = Some (Inr []))
   \<and> (n < - PY_SSIZE_T_MAX - 1 \<longrightarrow>
        chunk capacity P n = Inl OverflowError
      \<and> iter_chunk capacity P n = Inl OverflowError
      \<and> chunk_default capacity P n dflt = Inl OverflowError
      \<and> iter_chunk_default capacity P n dflt = Inl OverflowError)"
proof (intro conjI impI)
  show "iter_window P n = Inr \<lparr>pc = GenCreated, window_size = n, elements = [], wsrc = P\<rparr>"
    by (simp add: iter_window_def iter_window_gen_def)
next
  assume h: "- PY_SSIZE_T_MAX - 1 \<le> n \<and> n \<le> 0"
  then show "chunk capacity P n = Inr \<lparr>tuplesize = 0, zsrc = P\<rparr>"
    and "iter_chunk capacity P n = Inr \<lparr>tuplesize = 0, zsrc = P\<rparr>"
    and "chunk_default capacity P n dflt
          = Inr \<lparr>ittuple = [], numactive = 0, fillvalue = dflt, zlsrc = P\<rparr>"
    and "iter_chunk_default capacity P n dflt
          = Inr \<lparr>ittuple = [], numactive = 0, fillvalue = dflt, zlsrc = P\<rparr>"
    and "iter_chunk_collect capacity P n = Some (Inr [])"
    and "iter_chunk_default_collect capacity P n dflt = Some (Inr [])"
    by (simp_all add: iter_chunk_def iter_chunk_default_def chunk_nonpositive
        chunk_default_nonpositive iter_chunk_collect_nonpositive
        iter_chunk_default_collect_nonpositive)
next
  assume "n < - PY_SSIZE_T_MAX - 1"
  then have "list_repeat capacity n = Inl OverflowError"
    by (simp add: list_repeat_overflow)
  then show "chunk capacity P n = Inl OverflowError"
    and "iter_chunk capacity P n = Inl OverflowError"
    and "chunk_default capacity P n dflt = Inl OverflowError"
    and "iter_chunk_default capacity P n dflt = Inl OverflowError"
    by (simp_all add: iter_chunk_def iter_chunk_default_def chunk_def chunk_default_def)
qed

theorem nonpositive_size_no_error_witness:
  "(-1 :: int) \<le> 0
   \<and> - PY_SSIZE_T_MAX - 1 \<le> -1
   \<and> iter_window [1, 2, 3 :: int] (-1)
       = Inr \<lparr>pc = GenCreated, window_size = -1, elements = [], wsrc = [1, 2, 3]\<rparr>
   \<and> chunk 1000 [1, 2, 3 :: int] (-1) = Inr \<lparr>tuplesize = 0, zsrc = [1, 2, 3]\<rparr>
   \<and> chunk_default 1000 [1, 2, 3 :: int] (-1) 9
       = Inr \<lparr>ittuple = [], numactive = 0, fillvalue = 9, zlsrc = [1, 2, 3]\<rparr>
   \<and> iter_chunk_collect 1000 [1, 2, 3 :: int] (-1) = Some (Inr [])
   \<and> iter_chunk_default_collect 1000 [1, 2, 3 :: int] (-1) 9 = Some (Inr [])
   \<and> - (2 ^ 64) < - PY_SSIZE_T_MAX - 1
   \<and> chunk 1000 [1, 2, 3 :: int] (- (2 ^ 64)) = Inl OverflowError
   \<and> chunk_default 1000 [1, 2, 3 :: int] (- (2 ^ 64)) 9 = Inl OverflowError"
proof -
  have a: "(-1 :: int) \<le> 0" by simp
  have b: "- PY_SSIZE_T_MAX - 1 \<le> -1" by (simp add: PY_SSIZE_T_MAX_def)
  have c: "- (2 ^ 64) < - PY_SSIZE_T_MAX - 1" by (simp add: PY_SSIZE_T_MAX_def)
  from nonpositive_size_no_error [of "-1" "[1, 2, 3 :: int]" 1000 9] a b
  have "iter_window [1, 2, 3 :: int] (-1)
       = Inr \<lparr>pc = GenCreated, window_size = -1, elements = [], wsrc = [1, 2, 3]\<rparr>
   \<and> chunk 1000 [1, 2, 3 :: int] (-1) = Inr \<lparr>tuplesize = 0, zsrc = [1, 2, 3]\<rparr>
   \<and> chunk_default 1000 [1, 2, 3 :: int] (-1) 9
       = Inr \<lparr>ittuple = [], numactive = 0, fillvalue = 9, zlsrc = [1, 2, 3]\<rparr>
   \<and> iter_chunk_collect 1000 [1, 2, 3 :: int] (-1) = Some (Inr [])
   \<and> iter_chunk_default_collect 1000 [1, 2, 3 :: int] (-1) 9 = Some (Inr [])"
    by blast
  moreover from nonpositive_size_no_error [of "- (2 ^ 64)" "[1, 2, 3 :: int]" 1000 9] c
  have "chunk 1000 [1, 2, 3 :: int] (- (2 ^ 64)) = Inl OverflowError
      \<and> chunk_default 1000 [1, 2, 3 :: int] (- (2 ^ 64)) 9 = Inl OverflowError"
    by blast
  ultimately show ?thesis using a b c by blast
qed


text \<open>When it is driven, a window of a size that is not positive yields one empty group
  and then, if the producer has an element, fails on the empty deque.\<close>

lemma window_nonpositive_driven:
  assumes "n \<le> 0"
  shows "iter_window_collect ([] :: 'a list) n = Some (Inr [[]])"
    and "iter_window_collect (x # xs :: 'a list) n = Some (Inl IndexError)"
proof -
  let ?g = "\<lambda>it. \<lparr>pc = GenCreated, window_size = n, elements = [], wsrc = it\<rparr>"
  let ?s = "\<lambda>it. \<lparr>pc = GenSuspended, window_size = n, elements = [], wsrc = it\<rparr>"
  have first: "window_resume (?g it) = Yield [] (?s it)" for it :: "'a list"
    using assms by (simp add: window_resume_def)
  have run: "drain window_resume [] (?g it) = drain window_resume [[]] (?s it)"
    for it :: "'a list"
    by (rule drain_Yield) (rule first)
  have "window_resume (?s ([] :: 'a list)) = Stop ((?s [])\<lparr>pc := GenFinished\<rparr>)"
    by (simp add: window_resume_def list_next_def)
  from drain_Stop [where nxt = window_resume, OF this, of "[[]]"]
  show "iter_window_collect ([] :: 'a list) n = Some (Inr [[]])"
    by (simp add: iter_window_collect_def iter_window_def iter_window_gen_def py_list_def run)
  have "window_resume (?s (x # xs)) = Raise IndexError ((?s xs)\<lparr>pc := GenFinished\<rparr>)"
    by (simp add: window_resume_def list_next_def)
  from drain_Raise [where nxt = window_resume, OF this, of "[[]]"]
  show "iter_window_collect (x # xs) n = Some (Inl IndexError)"
    by (simp add: iter_window_collect_def iter_window_def iter_window_gen_def py_list_def run)
qed

end
